theory Spec2Isabelle
  imports Main "HOL-Library.Word"
begin

unbundle bit_operations_syntax

section \<open>Python values\<close>

text \<open>
  A Python \<open>str\<close> is a sequence of Unicode code points, a \<open>bytes\<close> object a sequence
  of octets. A \<open>datetime\<close> is a number of microseconds on the UTC time line, and
  \<open>timedelta(hours=h)\<close> is \<open>h\<close> hours in that unit.
\<close>

type_synonym pystr = "nat list"
type_synonym byte = "8 word"
type_synonym bytes = "byte list"
type_synonym datetime = int

definition lit :: "string \<Rightarrow> pystr" where
  "lit s = map of_char s"

definition timedelta_hours :: "int \<Rightarrow> int" where
  "timedelta_hours h = h * 3600000000"

text \<open>\<open>str(n)\<close> for an integer: decimal digits, with a minus sign when negative.\<close>

fun digits :: "nat \<Rightarrow> pystr" where
  "digits n = (if n < 10 then [48 + n] else digits (n div 10) @ [48 + n mod 10])"

declare digits.simps [simp del]

definition str_int :: "int \<Rightarrow> pystr" where
  "str_int i = (if i < 0 then 45 # digits (nat (- i)) else digits (nat i))"

text \<open>
  The exceptions the modelled code can raise. A \<open>ValueError\<close> carries its message;
  \<open>FailedProtobuf e\<close> is \<open>"Failed to decode protobuf: " + str(e)\<close>.
\<close>

datatype pyexn = KeyError | IndexError | UnicodeEncodeError | ValueError vmsg
and vmsg =
    FailedBase64 | EmptyAfterBase64
  | TooShortForGzip | FailedGzip | FailedGzipOffset3
  | TooShortForProtobuf | NoStartMarker | FailedProtobuf pyexn

text \<open>
  \<open>print(line)\<close> raises \<open>UnicodeEncodeError\<close> when \<open>sys.stdout\<close> cannot encode a character
  of the line. \<open>sys.stdout\<close> is taken to be a UTF-8 text stream, CPython's default: it
  encodes every code point that is not a surrogate, and its error handler decides for
  the surrogates \<open>U+D800\<close> to \<open>U+DFFF\<close> (\<open>strict\<close> accepts none of them). The lines
  printed by the modelled code are ASCII text, numbers, \<open>repr\<close> of lists, which escapes
  every surrogate, and strings inserted as they are: only these last, the \<open>raw\<close> parts,
  can make the line fail.
\<close>

definition stdout_encodes :: "(nat \<Rightarrow> bool) \<Rightarrow> nat \<Rightarrow> bool" where
  "stdout_encodes handler c = (c < 0xD800 \<or> 0xDFFF < c \<or> handler c)"

definition print_raises :: "(nat \<Rightarrow> bool) \<Rightarrow> pystr list \<Rightarrow> bool" where
  "print_raises handler raw = (\<not> list_all (list_all (stdout_encodes handler)) raw)"

definition strict_errors :: "nat \<Rightarrow> bool" where
  "strict_errors c = False"


subsection \<open>Sequence operations of \<open>str\<close> and \<open>bytes\<close>\<close>

text \<open>\<open>xs[a:b]\<close> for non-negative \<open>a\<close> and \<open>b\<close>: out-of-range bounds are clamped.\<close>

definition slice :: "'a list \<Rightarrow> nat \<Rightarrow> nat \<Rightarrow> 'a list" where
  "slice xs a b = take (b - a) (drop a xs)"

text \<open>
  \<open>s.find(sub, i)\<close>: the least index \<open>j \<ge> i\<close> at which \<open>sub\<close> occurs in \<open>s\<close>;
  \<open>None\<close> stands for Python's \<open>-1\<close>. \<open>sub in s\<close> is \<open>contains sub s\<close>.
\<close>

function find_from :: "'a list \<Rightarrow> 'a list \<Rightarrow> nat \<Rightarrow> nat option" where
  "find_from sub s i =
     (if length s < i + length sub then None
      else if take (length sub) (drop i s) = sub then Some i
      else find_from sub s (Suc i))"
  by pat_completeness auto
termination
  by (relation "measure (\<lambda>(sub, s, i). Suc (length s) - i)") auto

declare find_from.simps [simp del]

definition contains :: "'a list \<Rightarrow> 'a list \<Rightarrow> bool" where
  "contains sub s = (find_from sub s 0 \<noteq> None)"

text \<open>
  \<open>s.split(sep)\<close> for a non-empty separator: the pieces between the occurrences of
  \<open>sep\<close>, found from left to right without overlap. \<open>skip\<close> counts the characters of
  a separator still to be passed over, \<open>cur\<close> is the current piece, reversed.
\<close>

fun split_acc :: "'a list \<Rightarrow> nat \<Rightarrow> 'a list \<Rightarrow> 'a list \<Rightarrow> 'a list list" where
  "split_acc sep skip cur [] = [rev cur]"
| "split_acc sep skip cur (c # cs) =
     (if 0 < skip then split_acc sep (skip - 1) cur cs
      else if take (length sep) (c # cs) = sep
        then rev cur # split_acc sep (length sep - 1) [] cs
      else split_acc sep 0 (c # cur) cs)"

definition py_split :: "'a list \<Rightarrow> 'a list \<Rightarrow> 'a list list" where
  "py_split sep s = split_acc sep 0 [] s"

text \<open>\<open>s.lstrip(chars)\<close> and \<open>s.strip(chars)\<close>, the character set given as a predicate.\<close>

definition lstrip :: "('a \<Rightarrow> bool) \<Rightarrow> 'a list \<Rightarrow> 'a list" where
  "lstrip P s = dropWhile P s"

definition strip :: "('a \<Rightarrow> bool) \<Rightarrow> 'a list \<Rightarrow> 'a list" where
  "strip P s = rev (dropWhile P (rev (dropWhile P s)))"

section \<open>Deduplication cache (services/message\_cache.py)\<close>

record cached_message =
  cm_text :: pystr
  cm_version :: int
  processed_at :: datetime

record message_cache =
  cache :: "pystr \<rightharpoonup> (pystr \<rightharpoonup> cached_message)"
  mc_ttl_hours :: int

definition message_cache_init :: "int \<Rightarrow> message_cache" where
  "message_cache_init ttl = \<lparr>cache = Map.empty, mc_ttl_hours = ttl\<rparr>"

text \<open>\<open>f"{meeting_id}:messages:{msg_id_str}/{device_id}"\<close>\<close>

definition get_cache_key :: "pystr \<Rightarrow> int option \<Rightarrow> pystr \<Rightarrow> pystr" where
  "get_cache_key meeting_id message_id device_id =
     (let msg_id_str = (case message_id of None \<Rightarrow> lit ''none'' | Some i \<Rightarrow> str_int i)
      in meeting_id @ lit '':messages:'' @ msg_id_str @ lit ''/'' @ device_id)"

text \<open>
  \<open>is_duplicate\<close> reads the clock (\<open>now\<close>) and may delete the entry it looked at, so it
  returns the answer together with the cache after the call.
\<close>

definition is_duplicate ::
  "message_cache \<Rightarrow> datetime \<Rightarrow> pystr \<Rightarrow> int option \<Rightarrow> pystr \<Rightarrow> pystr \<Rightarrow> int
     \<Rightarrow> bool \<times> message_cache" where
  "is_duplicate s now meeting_id message_id device_id text version =
     (case cache s meeting_id of
        None \<Rightarrow> (False, s)
      | Some entries \<Rightarrow>
          (let cache_key = get_cache_key meeting_id message_id device_id in
           case entries cache_key of
             None \<Rightarrow> (False, s)
           | Some cached \<Rightarrow>
               if processed_at cached + timedelta_hours (mc_ttl_hours s) < now then
                 (let entries' = entries(cache_key := None) in
                  (False,
                   s\<lparr>cache := (if dom entries' = {} then (cache s)(meeting_id := None)
                                else (cache s)(meeting_id \<mapsto> entries'))\<rparr>))
               else if cm_text cached = text \<and> cm_version cached = version then (True, s)
               else (False, s)))"

definition cache_message ::
  "message_cache \<Rightarrow> datetime \<Rightarrow> pystr \<Rightarrow> int option \<Rightarrow> pystr \<Rightarrow> pystr \<Rightarrow> int
     \<Rightarrow> message_cache" where
  "cache_message s now meeting_id message_id device_id text version =
     (let entries = (case cache s meeting_id of None \<Rightarrow> Map.empty | Some e \<Rightarrow> e);
          cache_key = get_cache_key meeting_id message_id device_id
      in s\<lparr>cache := (cache s)(meeting_id \<mapsto>
             entries(cache_key \<mapsto>
               \<lparr>cm_text = text, cm_version = version, processed_at = now\<rparr>))\<rparr>)"

text \<open>The entry stored for a key, if any.\<close>

definition cached_entry ::
  "message_cache \<Rightarrow> pystr \<Rightarrow> int option \<Rightarrow> pystr \<Rightarrow> cached_message option" where
  "cached_entry s meeting_id message_id device_id =
     (case cache s meeting_id of
        None \<Rightarrow> None
      | Some entries \<Rightarrow> entries (get_cache_key meeting_id message_id device_id))"

section \<open>Identity resolver (services/mapping.py)\<close>

record participant =
  name :: pystr
  variants :: "pystr list"
  updated_at :: datetime

text \<open>
  \<open>_mapping\<close>: meeting id to canonical device id to participant;
  \<open>_index\<close>: meeting id to variant to canonical device id, a \<open>defaultdict(dict)\<close>;
  \<open>_cleanup_times\<close>: meeting id to the time at which the mapping expires.
\<close>

record mapping_service =
  mapping :: "pystr \<rightharpoonup> (pystr \<rightharpoonup> participant)"
  index :: "pystr \<rightharpoonup> (pystr \<rightharpoonup> pystr)"
  ttl_hours :: int
  cleanup_times :: "pystr \<rightharpoonup> datetime"

definition mapping_service_init :: "int \<Rightarrow> mapping_service" where
  "mapping_service_init ttl =
     \<lparr>mapping = Map.empty, index = Map.empty, ttl_hours = ttl, cleanup_times = Map.empty\<rparr>"

text \<open>
  Reading \<open>self._index[meeting_id]\<close>: a \<open>defaultdict\<close> inserts an empty dictionary
  for a missing key and returns it.
\<close>

definition index_or_empty :: "mapping_service \<Rightarrow> pystr \<Rightarrow> (pystr \<rightharpoonup> pystr)" where
  "index_or_empty s meeting_id = (case index s meeting_id of None \<Rightarrow> Map.empty | Some ix \<Rightarrow> ix)"

definition index_get :: "mapping_service \<Rightarrow> pystr \<Rightarrow> (pystr \<rightharpoonup> pystr) \<times> mapping_service" where
  "index_get s meeting_id =
     (case index s meeting_id of
        None \<Rightarrow> (Map.empty, s\<lparr>index := (index s)(meeting_id \<mapsto> Map.empty)\<rparr>)
      | Some ix \<Rightarrow> (ix, s))"

text \<open>The loop over \<open>all_variants\<close>: empty strings are skipped.\<close>

fun index_variants :: "pystr \<Rightarrow> pystr \<Rightarrow> pystr list \<Rightarrow> mapping_service \<Rightarrow> mapping_service" where
  "index_variants meeting_id device_id [] s = s"
| "index_variants meeting_id device_id (variant # rest) s =
     index_variants meeting_id device_id rest
       (if variant \<noteq> [] then
          (case index_get s meeting_id of
             (ix, s') \<Rightarrow> s'\<lparr>index := (index s')(meeting_id \<mapsto> ix(variant \<mapsto> device_id))\<rparr>)
        else s)"

text \<open>The assignments of \<open>save_mapping\<close>; they are done before the log line is printed.\<close>

definition save_mapping_state ::
  "mapping_service \<Rightarrow> datetime \<Rightarrow> pystr \<Rightarrow> pystr \<Rightarrow> pystr \<Rightarrow> pystr list \<Rightarrow> mapping_service" where
  "save_mapping_state s now meeting_id device_id nm vs =
     (let s1 = (if mapping s meeting_id = None
                then s\<lparr>mapping := (mapping s)(meeting_id \<mapsto> Map.empty),
                       index := (index s)(meeting_id \<mapsto> Map.empty)\<rparr>
                else s);
          entries = (case mapping s1 meeting_id of None \<Rightarrow> Map.empty | Some e \<Rightarrow> e);
          s2 = s1\<lparr>mapping := (mapping s1)(meeting_id \<mapsto>
                 entries(device_id \<mapsto> \<lparr>name = nm, variants = vs, updated_at = now\<rparr>))\<rparr>;
          s3 = index_variants meeting_id device_id (device_id # vs) s2
      in s3\<lparr>cleanup_times :=
             (cleanup_times s3)(meeting_id \<mapsto> now + timedelta_hours (ttl_hours s3))\<rparr>)"

text \<open>
  \<open>save_mapping\<close> ends with \<open>print(log_msg)\<close>. The line holds \<open>meeting_id\<close>,
  \<open>device_id\<close> and \<open>name\<close> as they are, and \<open>old_name\<close> when the participant existed with
  another name; the two lists of variants are printed through \<open>repr\<close>. The result is the
  exception raised, if any, and the service after the call.
\<close>

definition save_mapping ::
  "(nat \<Rightarrow> bool) \<Rightarrow> mapping_service \<Rightarrow> datetime \<Rightarrow> pystr \<Rightarrow> pystr \<Rightarrow> pystr \<Rightarrow> pystr list
     \<Rightarrow> pyexn option \<times> mapping_service" where
  "save_mapping handler s now meeting_id device_id nm vs =
     (let old_name =
            (case mapping s meeting_id of
               None \<Rightarrow> None
             | Some entries \<Rightarrow> map_option name (entries device_id));
          raw = [meeting_id, device_id, nm]
                @ (case old_name of
                     None \<Rightarrow> []
                   | Some old \<Rightarrow> if old \<noteq> nm then [old] else [])
      in (if print_raises handler raw then Some UnicodeEncodeError else None,
          save_mapping_state s now meeting_id device_id nm vs))"

text \<open>\<open>_clean_device_id\<close>: leading characters \<open>0x00\<close> to \<open>0x1F\<close> are removed.\<close>

definition clean_device_id :: "pystr \<Rightarrow> pystr" where
  "clean_device_id device_id = (if device_id = [] then device_id else lstrip (\<lambda>c. c < 32) device_id)"

text \<open>
  One lookup through the reverse index:
  \<open>if key in index: mapped_id = index[key]; return mapping[mapped_id]["name"]\<close>.
  \<open>None\<close> when the key is not in the index (the search goes on), \<open>KeyError\<close> when the
  index points to a device id the mapping does not have.
\<close>

definition via_index ::
  "(pystr \<rightharpoonup> participant) \<Rightarrow> (pystr \<rightharpoonup> pystr) \<Rightarrow> pystr \<Rightarrow> (pyexn + pystr option) option" where
  "via_index entries ix key =
     (case ix key of
        None \<Rightarrow> None
      | Some mapped_id \<Rightarrow>
          (case entries mapped_id of
             None \<Rightarrow> Some (Inl KeyError)
           | Some p \<Rightarrow> Some (Inr (Some (name p)))))"

definition or_else :: "'a option \<Rightarrow> 'a option \<Rightarrow> 'a option" where
  "or_else a b = (case a of None \<Rightarrow> b | Some x \<Rightarrow> Some x)"

text \<open>
  Strategies 2 (index part) to 5 of \<open>find_name_by_device_id\<close>, in the source's order;
  \<open>None\<close> when none of them finds the device id.
\<close>

definition find_via_index ::
  "(pystr \<rightharpoonup> participant) \<Rightarrow> (pystr \<rightharpoonup> pystr) \<Rightarrow> pystr \<Rightarrow> (pyexn + pystr option) option" where
  "find_via_index entries ix device_id =
     (let cleaned_id = clean_device_id device_id;
          s2 = (if cleaned_id \<noteq> [] \<and> cleaned_id \<noteq> device_id
                then via_index entries ix cleaned_id else None);
          s3 = (if contains (lit ''devices/'') device_id then
                  or_else (via_index entries ix (last (py_split (lit ''devices/'') device_id)))
                    (if contains (lit ''spaces/'') device_id
                     then via_index entries ix (last (py_split (lit ''spaces/'') device_id))
                     else None)
                else None);
          s4 = (if contains (lit ''/'') device_id then
                  (let parts = py_split (lit ''/'') device_id in
                   or_else (via_index entries ix (last parts))
                     (if 2 \<le> length parts \<and> parts ! (length parts - 2) = lit ''devices''
                      then via_index entries ix (last parts) else None))
                else None);
          s5 = via_index entries ix device_id
      in or_else s2 (or_else s3 (or_else s4 s5)))"

text \<open>
  The two paths that return \<open>None\<close> (no mapping for the meeting, device id not found)
  log a line and print it with \<open>print(log_msg)\<close>; the line holds \<open>meeting_id\<close> and
  \<open>device_id\<close> as they are, and lists of keys through \<open>repr\<close>. The paths that return a
  name only call the logger, which raises nothing.
\<close>

definition not_found :: "(nat \<Rightarrow> bool) \<Rightarrow> pystr \<Rightarrow> pystr \<Rightarrow> pyexn + pystr option" where
  "not_found handler meeting_id device_id =
     (if print_raises handler [meeting_id, device_id] then Inl UnicodeEncodeError else Inr None)"

definition find_name_by_device_id ::
  "(nat \<Rightarrow> bool) \<Rightarrow> mapping_service \<Rightarrow> pystr \<Rightarrow> pystr
     \<Rightarrow> (pyexn + pystr option) \<times> mapping_service" where
  "find_name_by_device_id handler s meeting_id device_id =
     (case mapping s meeting_id of
        None \<Rightarrow> (not_found handler meeting_id device_id, s)
      | Some entries \<Rightarrow>
          (case entries device_id of
             Some p \<Rightarrow> (Inr (Some (name p)), s)
           | None \<Rightarrow>
               (let cleaned_id = clean_device_id device_id;
                    direct = (if cleaned_id \<noteq> [] \<and> cleaned_id \<noteq> device_id
                              then entries cleaned_id else None)
                in case direct of
                     Some p \<Rightarrow> (Inr (Some (name p)), s)
                   | None \<Rightarrow>
                       (case index_get s meeting_id of
                          (ix, s') \<Rightarrow>
                            (case find_via_index entries ix device_id of
                               Some r \<Rightarrow> (r, s')
                             | None \<Rightarrow> (not_found handler meeting_id device_id, s'))))))"

definition clear_mapping :: "mapping_service \<Rightarrow> pystr \<Rightarrow> mapping_service" where
  "clear_mapping s meeting_id =
     s\<lparr>mapping := (mapping s)(meeting_id := None),
       index := (index s)(meeting_id := None),
       cleanup_times := (cleanup_times s)(meeting_id := None)\<rparr>"

text \<open>
  \<open>cleanup_expired\<close> clears every meeting whose cleanup time lies before \<open>now\<close>;
  the meetings are cleared independently of each other.
\<close>

definition mapping_expired :: "mapping_service \<Rightarrow> datetime \<Rightarrow> pystr \<Rightarrow> bool" where
  "mapping_expired s now meeting_id =
     (case cleanup_times s meeting_id of None \<Rightarrow> False | Some cleanup_time \<Rightarrow> cleanup_time < now)"

definition cleanup_expired :: "mapping_service \<Rightarrow> datetime \<Rightarrow> mapping_service" where
  "cleanup_expired s now =
     s\<lparr>mapping := (\<lambda>m. if mapping_expired s now m then None else mapping s m),
       index := (\<lambda>m. if mapping_expired s now m then None else index s m),
       cleanup_times := (\<lambda>m. if mapping_expired s now m then None else cleanup_times s m)\<rparr>"

text \<open>Histories of calls on the service.\<close>

datatype mapping_op =
    SaveMapping datetime pystr pystr pystr "pystr list"
  | FindName pystr pystr
  | ClearMapping pystr
  | CleanupExpired datetime

text \<open>A call that raises leaves the service as it was changed up to the raise.\<close>

fun apply_op :: "(nat \<Rightarrow> bool) \<Rightarrow> mapping_service \<Rightarrow> mapping_op \<Rightarrow> mapping_service" where
  "apply_op handler s (SaveMapping now m d nm vs) = snd (save_mapping handler s now m d nm vs)"
| "apply_op handler s (FindName m d) = snd (find_name_by_device_id handler s m d)"
| "apply_op handler s (ClearMapping m) = clear_mapping s m"
| "apply_op handler s (CleanupExpired now) = cleanup_expired s now"

definition run_ops :: "(nat \<Rightarrow> bool) \<Rightarrow> mapping_service \<Rightarrow> mapping_op list \<Rightarrow> mapping_service" where
  "run_ops handler s ops = foldl (apply_op handler) s ops"

text \<open>
  Every entry of a meeting's reverse index points to a canonical entry of the same
  meeting's mapping.
\<close>

definition index_consistent :: "mapping_service \<Rightarrow> bool" where
  "index_consistent s =
     (\<forall>m entries ix v c. mapping s m = Some entries \<and> index s m = Some ix \<and> ix v = Some c
        \<longrightarrow> entries c \<noteq> None)"

text \<open>
  The lookups that \<open>find_name_by_device_id\<close> makes for a device id, in the order of the
  source: \<open>Canonical k\<close> is the test \<open>k in self._mapping[meeting_id]\<close>, \<open>Indexed k\<close> the
  test \<open>k in self._index[meeting_id]\<close>. The last one is the lookup of the device id
  itself in the index.
\<close>

datatype lookup = Canonical pystr | Indexed pystr


fun lookup_hit ::
  "(pystr \<rightharpoonup> participant) \<Rightarrow> (pystr \<rightharpoonup> pystr) \<Rightarrow> lookup \<Rightarrow> (pyexn + pystr option) option" where
  "lookup_hit entries ix (Canonical k) = map_option (\<lambda>p. Inr (Some (name p))) (entries k)"
| "lookup_hit entries ix (Indexed k) = via_index entries ix k"

fun first_hit ::
  "(pystr \<rightharpoonup> participant) \<Rightarrow> (pystr \<rightharpoonup> pystr) \<Rightarrow> lookup list \<Rightarrow> (pyexn + pystr option) option" where
  "first_hit entries ix [] = None"
| "first_hit entries ix (l # ls) = or_else (lookup_hit entries ix l) (first_hit entries ix ls)"

section \<open>Wire decoder (services/decoder.py)\<close>

subsection \<open>Standard library\<close>

text \<open>
  The decoder calls functions of the Python standard library, which is not part of the
  repository. They are a parameter of the model: \<open>base64.b64decode\<close> and
  \<open>gzip.decompress\<close> (\<open>None\<close> when they raise), \<open>bytes.decode('utf-8', errors=...)\<close>
  for \<open>replace\<close> and \<open>ignore\<close> (these never raise), and the Unicode character classes
  of the code points from 128 on. The classes of the ASCII characters are written out.
\<close>

record pylib =
  b64decode :: "pystr \<Rightarrow> bytes option"
  gzip_decompress :: "bytes \<Rightarrow> bytes option"
  decode_replace :: "bytes \<Rightarrow> pystr"
  decode_ignore :: "bytes \<Rightarrow> pystr"
  uni_isprintable :: "nat \<Rightarrow> bool"
  uni_isalnum :: "nat \<Rightarrow> bool"
  uni_isdigit :: "nat \<Rightarrow> bool"

definition isprintable :: "pylib \<Rightarrow> nat \<Rightarrow> bool" where
  "isprintable L c = (if c < 128 then 32 \<le> c \<and> c < 127 else uni_isprintable L c)"

definition isalnum :: "pylib \<Rightarrow> nat \<Rightarrow> bool" where
  "isalnum L c =
     (if c < 128 then (48 \<le> c \<and> c \<le> 57) \<or> (65 \<le> c \<and> c \<le> 90) \<or> (97 \<le> c \<and> c \<le> 122)
      else uni_isalnum L c)"

definition isdigit :: "pylib \<Rightarrow> nat \<Rightarrow> bool" where
  "isdigit L c = (if c < 128 then 48 \<le> c \<and> c \<le> 57 else uni_isdigit L c)"

text \<open>The characters \<open>str.strip()\<close> and \<open>str.split()\<close> treat as whitespace.\<close>

definition isspace :: "nat \<Rightarrow> bool" where
  "isspace c =
     ((9 \<le> c \<and> c \<le> 13) \<or> (28 \<le> c \<and> c \<le> 32) \<or> c = 0x85 \<or> c = 0xA0 \<or> c = 0x1680
      \<or> (0x2000 \<le> c \<and> c \<le> 0x200A) \<or> c = 0x2028 \<or> c = 0x2029 \<or> c = 0x202F
      \<or> c = 0x205F \<or> c = 0x3000)"

text \<open>\<open>s.split()\<close>: the maximal runs of non-whitespace characters.\<close>

fun words_acc :: "pystr \<Rightarrow> pystr \<Rightarrow> pystr list" where
  "words_acc cur [] = (if cur = [] then [] else [rev cur])"
| "words_acc cur (c # cs) =
     (if isspace c then (if cur = [] then words_acc [] cs else rev cur # words_acc [] cs)
      else words_acc (c # cur) cs)"

definition split_ws :: "pystr \<Rightarrow> pystr list" where
  "split_ws s = words_acc [] s"

text \<open>\<open>.strip('\x00')\<close> and \<open>.strip('\x00').strip()\<close>.\<close>

definition strip_nul :: "pystr \<Rightarrow> pystr" where
  "strip_nul s = strip (\<lambda>c. c = 0) s"

definition strip_nul_ws :: "pystr \<Rightarrow> pystr" where
  "strip_nul_ws s = strip isspace (strip_nul s)"

text \<open>The character sets \<open>'/\\-_'\<close> and \<open>'/\\-_@.'\<close> (92 is the backslash).\<close>

definition path_chars :: pystr where
  "path_chars = [47, 92, 45, 95]"

definition id_chars :: pystr where
  "id_chars = [47, 92, 45, 95, 64, 46]"

definition blit :: "string \<Rightarrow> bytes" where
  "blit s = map of_nat (lit s)"

subsection \<open>\<open>_is_valid_device_id\<close>\<close>

text \<open>
  The source compares floating-point numbers: \<open>printable_count / n < 0.7\<close>,
  \<open>count > n * 0.3\<close>, \<open>count > n * 0.2\<close> and \<open>count > n * 0.5\<close>. For lengths up to
  200 these comparisons of doubles agree with the exact comparisons written here, and
  a longer string is rejected whatever they say.
  \<open>most_common_char\<close> is the first character, in order of first occurrence, whose count
  is the maximum.
\<close>

definition is_valid_device_id :: "pylib \<Rightarrow> pystr \<Rightarrow> bool" where
  "is_valid_device_id L device_id =
     (let n = length device_id;
          printable_count = length (filter (\<lambda>c. isprintable L c \<or> c \<in> set path_chars) device_id);
          replacement_char_count = count_list device_id 0xFFFD;
          control_chars = length (filter (\<lambda>c. c < 32 \<and> c \<notin> set [10, 13, 9]) device_id);
          has_valid_chars = list_ex (\<lambda>c. isalnum L c \<or> c \<in> set id_chars) device_id;
          space_count = count_list device_id 32;
          text_endings = lit ''.!?,;:@'';
          words = split_ws device_id;
          max_char_count = fold max (map (count_list device_id) device_id) 0
      in if device_id = [] then False
         else if 10 * printable_count < 7 * n then False
         else if 3 * n < 10 * replacement_char_count then False
         else if n < 5 * control_chars then False
         else if 200 < n then False
         else if \<not> has_valid_chars then False
         else if 20 < n \<and> n div 10 < space_count then False
         else if 10 < n \<and> last device_id \<in> set text_endings \<and> 0 < space_count then False
         else if 3 < length words \<and> n < 100 then False
         else if 3 < n \<and> n < 2 * max_char_count \<and> 3 < max_char_count
                 \<and> (case find (\<lambda>c. count_list device_id c = max_char_count) device_id of
                        None \<Rightarrow> False
                      | Some most_common_char \<Rightarrow> most_common_char \<notin> set id_chars)
           then False
         else True)"

subsection \<open>Scanning the buffer\<close>

text \<open>
  \<open>_find_data_start\<close>: \<open>for i in range(len(data) - 1)\<close>, so the last byte is never
  looked at as a marker.
\<close>

function find_data_start_from :: "bytes \<Rightarrow> nat \<Rightarrow> nat option" where
  "find_data_start_from data i =
     (if i < length data - 1 then
        (if data ! i = 16 then
           (if i + 1 < length data \<and> data ! (i + 1) = 1 then Some (i + 2) else Some (i + 1))
         else find_data_start_from data (Suc i))
      else None)"
  by pat_completeness auto
termination
  by (relation "measure (\<lambda>(data, i). length data - i)") auto

declare find_data_start_from.simps [simp del]

definition find_data_start :: "bytes \<Rightarrow> nat option" where
  "find_data_start data = find_data_start_from data 0"

text \<open>
  The varint loops of \<open>_extract_device_id\<close> and \<open>_extract_text\<close>: at most \<open>n\<close> bytes are
  passed over, up to and including the first one without the continuation bit. The
  value that the first loop accumulates is only logged.
\<close>

fun skip_varint :: "bytes \<Rightarrow> nat \<Rightarrow> nat \<Rightarrow> nat" where
  "skip_varint data idx 0 = idx"
| "skip_varint data idx (Suc n) =
     (if length data \<le> idx then idx
      else if (data ! idx) AND 0x80 = 0 then idx + 1
      else skip_varint data (idx + 1) n)"

text \<open>The first index in \<open>range(lo, hi)\<close> at which the byte \<open>b\<close> stands.\<close>

function find_byte :: "bytes \<Rightarrow> byte \<Rightarrow> nat \<Rightarrow> nat \<Rightarrow> nat option" where
  "find_byte data b lo hi =
     (if lo < hi then (if data ! lo = b then Some lo else find_byte data b (Suc lo) hi)
      else None)"
  by pat_completeness auto
termination
  by (relation "measure (\<lambda>(data, b, lo, hi). hi - lo)") auto

declare find_byte.simps [simp del]

text \<open>\<open>_find_pattern\<close>\<close>

definition find_pattern :: "bytes \<Rightarrow> bytes \<Rightarrow> nat \<Rightarrow> nat option" where
  "find_pattern data pattern start_idx =
     (if pattern = [] then Some start_idx else find_from pattern data start_idx)"

subsection \<open>\<open>_extract_device_id\<close>\<close>

text \<open>
  Each approach of the source is a function that returns the pair the source returns
  there, or \<open>None\<close> when the source goes on to the next approach.
  First the structure \<open>[10, varint, 10, 31, string]\<close> at the start of the buffer.
\<close>

definition device_id_structure :: "pylib \<Rightarrow> bytes \<Rightarrow> (pystr \<times> nat) option" where
  "device_id_structure L data =
     (if 35 \<le> length data \<and> data ! 0 = 10 \<and> 1 < length data then
        (let nested_msg_start = skip_varint data 1 5 in
         if nested_msg_start < length data \<and> data ! nested_msg_start = 10 then
           (let device_len_idx = nested_msg_start + 1 in
            if device_len_idx < length data \<and> data ! device_len_idx = 31 then
              (let device_str_start = device_len_idx + 1;
                   device_str_end = device_str_start + 31 in
               if device_str_end \<le> length data then
                 (let device_id = decode_replace L (slice data device_str_start device_str_end) in
                  if device_id \<noteq> []
                     \<and> (contains (lit ''spaces/'') device_id \<or> contains (lit ''/devices/'') device_id)
                  then Some (device_id, device_str_end) else None)
               else None)
            else None)
         else None)
      else None)"

text \<open>
  Approach 1: the loop stops at a byte 3 or at the search limit; the source goes on
  whenever the index it stopped at is inside the buffer.
\<close>

function scan_to_3 :: "bytes \<Rightarrow> nat \<Rightarrow> nat \<Rightarrow> nat" where
  "scan_to_3 data idx search_limit =
     (if idx < search_limit \<and> data ! idx \<noteq> 3 then scan_to_3 data (Suc idx) search_limit
      else idx)"
  by pat_completeness auto
termination
  by (relation "measure (\<lambda>(data, idx, search_limit). search_limit - idx)") auto

declare scan_to_3.simps [simp del]

definition device_id_byte_3 :: "pylib \<Rightarrow> bytes \<Rightarrow> nat \<Rightarrow> (pystr \<times> nat) option" where
  "device_id_byte_3 L data start_idx =
     (let idx = scan_to_3 data start_idx (min (start_idx + 100) (length data)) in
      if idx < length data then
        (let idx = idx + 1 in
         if length data \<le> idx then None
         else
           (let str_len = unat (data ! idx);
                idx = idx + 1 in
            if idx + str_len \<le> length data \<and> 0 < str_len \<and> str_len < 1000 then
              (let device_id = strip_nul (decode_replace L (slice data idx (idx + str_len))) in
               if device_id \<noteq> [] \<and> is_valid_device_id L device_id
               then Some (device_id, idx + str_len) else None)
            else None))
      else None)"

text \<open>
  Approaches 2 and 3: the loops over a tag byte (98, then 10) after \<open>start_idx\<close>. The
  two loops differ in the tag and in the extra test \<open>len(device_id) > 2\<close> of approach 3,
  here \<open>min_len\<close>. After a candidate that is not accepted the index has passed the tag
  and the length byte and is incremented once more.
\<close>

function scan_tag :: "pylib \<Rightarrow> bytes \<Rightarrow> byte \<Rightarrow> nat \<Rightarrow> nat \<Rightarrow> nat \<Rightarrow> (pystr \<times> nat) option" where
  "scan_tag L data tag min_len idx search_limit =
     (if idx < search_limit then
        (if data ! idx = tag then
           (if length data \<le> idx + 1 then None
            else
              (let str_len = unat (data ! (idx + 1));
                   device_id = strip_nul_ws (decode_replace L (slice data (idx + 2) (idx + 2 + str_len)))
               in if 200 < str_len then scan_tag L data tag min_len (idx + 1) search_limit
                  else if idx + 2 + str_len \<le> length data \<and> 0 < str_len
                          \<and> device_id \<noteq> [] \<and> min_len < length device_id
                          \<and> is_valid_device_id L device_id
                    then Some (device_id, idx + 2 + str_len)
                  else scan_tag L data tag min_len (idx + 3) search_limit))
         else scan_tag L data tag min_len (idx + 1) search_limit)
      else None)"
  by pat_completeness auto
termination
  by (relation "measure (\<lambda>(L, data, tag, min_len, idx, search_limit). search_limit - idx)") auto

declare scan_tag.simps [simp del]

definition device_id_byte_98 :: "pylib \<Rightarrow> bytes \<Rightarrow> nat \<Rightarrow> (pystr \<times> nat) option" where
  "device_id_byte_98 L data start_idx =
     scan_tag L data 98 0 start_idx (min (start_idx + 200) (length data))"

definition device_id_byte_10 :: "pylib \<Rightarrow> bytes \<Rightarrow> nat \<Rightarrow> (pystr \<times> nat) option" where
  "device_id_byte_10 L data start_idx =
     scan_tag L data 10 2 start_idx (min (start_idx + 150) (length data))"

text \<open>
  Approach 4a: the text \<open>spaces/\<close> before \<open>start_idx\<close>. The candidate of the source is
  \<open>None\<close> or a string and is only tested for being empty, so \<open>[]\<close> stands for both.
  First candidate: the bytes from \<open>spaces/\<close> to the next byte 16.
\<close>

definition candidate_to_16 :: "pylib \<Rightarrow> bytes \<Rightarrow> nat \<Rightarrow> nat \<Rightarrow> pystr" where
  "candidate_to_16 L data str_start_bytes start_idx =
     (case find_byte data 16 str_start_bytes start_idx of
        None \<Rightarrow> []
      | Some boundary_idx \<Rightarrow>
          strip_nul_ws (decode_replace L (slice data str_start_bytes boundary_idx)))"

text \<open>
  Second candidate: the loop over the positions after \<open>/devices/\<close>; it assigns and
  stops only at a position where the byte is 16.
\<close>

function candidate_num_boundary ::
  "pylib \<Rightarrow> bytes \<Rightarrow> bytes \<Rightarrow> pystr \<Rightarrow> nat \<Rightarrow> nat \<Rightarrow> nat \<Rightarrow> pystr" where
  "candidate_num_boundary L data before_data before_str str_start_bytes i stop =
     (if i < stop then
        (if i < length before_data
            \<and> (before_data ! i = 16
                 \<or> (\<not> isdigit L (before_str ! i) \<and> before_str ! i \<notin> set id_chars))
            \<and> before_data ! i = 16
         then strip_nul_ws (decode_replace L (slice data str_start_bytes i))
         else candidate_num_boundary L data before_data before_str str_start_bytes (Suc i) stop)
      else [])"
  by pat_completeness auto
termination
  by (relation "measure (\<lambda>(L, data, before_data, before_str, str_start_bytes, i, stop). stop - i)")
    auto

declare candidate_num_boundary.simps [simp del]

text \<open>
  Third candidate: \<open>remaining_str.split('/devices/', 1)\<close>, the leading digits of the
  second part, and the path with \<open>'/devices/'\<close> appended twice, as the source has it.
\<close>

definition candidate_digits :: "pylib \<Rightarrow> pystr \<Rightarrow> nat \<Rightarrow> pystr" where
  "candidate_digits L before_str str_start_bytes =
     (let remaining_str = drop str_start_bytes before_str in
      case find_from (lit ''/devices/'') remaining_str 0 of
        None \<Rightarrow> []
      | Some p \<Rightarrow>
          (let device_path = take p remaining_str @ lit ''/devices/'';
               device_num_raw = drop (p + 9) remaining_str;
               device_num = takeWhile (isdigit L) device_num_raw
           in if device_num \<noteq> [] then device_path @ lit ''/devices/'' @ device_num else []))"

definition device_id_before_4a :: "pylib \<Rightarrow> bytes \<Rightarrow> nat \<Rightarrow> (pystr \<times> nat) option" where
  "device_id_before_4a L data start_idx =
     (let before_data = take start_idx data;
          before_str = decode_ignore L before_data
      in if contains (lit ''spaces/'') before_str then
           (let device_id_candidate =
              (case find_from (blit ''spaces/'') before_data 0 of
                 None \<Rightarrow> []
               | Some str_start_bytes \<Rightarrow>
                   (let c1 = candidate_to_16 L data str_start_bytes start_idx in
                    if c1 = [] \<and> contains (lit ''/devices/'') before_str then
                      (case find_from (lit ''/devices/'') before_str str_start_bytes of
                         None \<Rightarrow> c1
                       | Some devices_pos \<Rightarrow>
                           (let device_num_start = devices_pos + 9;
                                c2 = candidate_num_boundary L data before_data before_str
                                       str_start_bytes device_num_start
                                       (min (device_num_start + 20) (length before_str))
                            in if c2 = [] then candidate_digits L before_str str_start_bytes
                               else c2))
                    else c1))
            in if device_id_candidate \<noteq> [] then
                 (let clean_device_id =
                        filter (\<lambda>c. isprintable L c \<or> c \<in> set id_chars) device_id_candidate
                  in if clean_device_id \<noteq> [] \<and> is_valid_device_id L clean_device_id
                     then Some (clean_device_id, start_idx) else None)
               else None)
         else None)"

text \<open>
  Approach 4b: for each start position, every byte 16 before \<open>start_idx\<close> is tried as
  the end of the string; the inner loop has no \<open>break\<close>.
\<close>

fun add_positions :: "nat \<Rightarrow> nat list \<Rightarrow> nat list \<Rightarrow> nat list" where
  "add_positions start_idx [] positions = positions"
| "add_positions start_idx (offset # offsets) positions =
     (let pos = start_idx - offset in
      add_positions start_idx offsets
        (if pos < start_idx \<and> pos \<notin> set positions then positions @ [pos] else positions))"

definition search_start_positions :: "nat \<Rightarrow> nat list" where
  "search_start_positions start_idx = add_positions start_idx [10, 20, 30, 50, 100] [0]"

definition boundary_candidate :: "pylib \<Rightarrow> bytes \<Rightarrow> nat \<Rightarrow> nat \<Rightarrow> (pystr \<times> nat) option" where
  "boundary_candidate L data str_start str_end =
     (if str_start < str_end \<and> str_end - str_start < 300 \<and> 10 < str_end - str_start then
        (let device_id = strip_nul_ws (decode_replace L (slice data str_start str_end)) in
         if device_id \<noteq> []
            \<and> (contains (lit ''spaces/'') device_id \<or> contains (lit ''/devices/'') device_id)
         then
           (if is_valid_device_id L device_id then Some (device_id, str_end)
            else if contains (lit ''/devices/'') device_id then
              (let parts = py_split (lit ''/devices/'') device_id in
               if length parts = 2 then
                 (let device_path = parts ! 0 @ lit ''/devices/'';
                      device_num =
                        take 20 (filter (\<lambda>c. isalnum L c \<or> c \<in> set id_chars) (parts ! 1));
                      clean_device_id = device_path @ device_num
                  in if device_num \<noteq> [] \<and> is_valid_device_id L clean_device_id
                     then Some (clean_device_id, str_end) else None)
               else None)
            else None)
         else None)
      else None)"

function boundary_scan :: "pylib \<Rightarrow> bytes \<Rightarrow> nat \<Rightarrow> nat \<Rightarrow> nat \<Rightarrow> (pystr \<times> nat) option" where
  "boundary_scan L data str_start boundary_idx start_idx =
     (if boundary_idx < start_idx then
        (if data ! boundary_idx = 16 \<and> boundary_candidate L data str_start boundary_idx \<noteq> None
         then boundary_candidate L data str_start boundary_idx
         else boundary_scan L data str_start (Suc boundary_idx) start_idx)
      else None)"
  by pat_completeness auto
termination
  by (relation "measure (\<lambda>(L, data, str_start, boundary_idx, start_idx). start_idx - boundary_idx)")
    auto

declare boundary_scan.simps [simp del]

fun device_id_from_positions :: "pylib \<Rightarrow> bytes \<Rightarrow> nat \<Rightarrow> nat list \<Rightarrow> (pystr \<times> nat) option" where
  "device_id_from_positions L data start_idx [] = None"
| "device_id_from_positions L data start_idx (str_start # rest) =
     (if start_idx \<le> str_start then device_id_from_positions L data start_idx rest
      else
        (case boundary_scan L data str_start str_start start_idx of
           Some r \<Rightarrow> Some r
         | None \<Rightarrow> device_id_from_positions L data start_idx rest))"

definition device_id_before_4b :: "pylib \<Rightarrow> bytes \<Rightarrow> nat \<Rightarrow> (pystr \<times> nat) option" where
  "device_id_before_4b L data start_idx =
     device_id_from_positions L data start_idx (search_start_positions start_idx)"

text \<open>
  Approach 4c: the tag bytes 10 and 98 in the 100 bytes before \<open>start_idx\<close>; the string
  has to end at or before \<open>start_idx\<close>.
\<close>

function scan_tag_before :: "pylib \<Rightarrow> bytes \<Rightarrow> byte \<Rightarrow> nat \<Rightarrow> nat \<Rightarrow> (pystr \<times> nat) option" where
  "scan_tag_before L data tag_byte idx start_idx =
     (if idx < start_idx then
        (if data ! idx = tag_byte then
           (if length data \<le> idx + 1 then None
            else
              (let str_len = unat (data ! (idx + 1));
                   device_id = strip_nul_ws (decode_replace L (slice data (idx + 2) (idx + 2 + str_len)))
               in if 200 < str_len \<or> str_len = 0 then
                    scan_tag_before L data tag_byte (idx + 1) start_idx
                  else if idx + 2 + str_len \<le> length data \<and> idx + 2 + str_len \<le> start_idx
                          \<and> device_id \<noteq> [] \<and> is_valid_device_id L device_id
                    then Some (device_id, idx + 2 + str_len)
                  else scan_tag_before L data tag_byte (idx + 3) start_idx))
         else scan_tag_before L data tag_byte (idx + 1) start_idx)
      else None)"
  by pat_completeness auto
termination
  by (relation "measure (\<lambda>(L, data, tag_byte, idx, start_idx). start_idx - idx)") auto

declare scan_tag_before.simps [simp del]

definition device_id_before_4c :: "pylib \<Rightarrow> bytes \<Rightarrow> nat \<Rightarrow> (pystr \<times> nat) option" where
  "device_id_before_4c L data start_idx =
     (let search_before_start = start_idx - 100 in
      or_else (scan_tag_before L data 10 search_before_start start_idx)
              (scan_tag_before L data 98 search_before_start start_idx))"

text \<open>
  The approaches in the order of the source; \<open>(None, start_idx)\<close> when all fail. The
  source calls \<open>_extract_device_id\<close> with the result of \<open>_find_data_start\<close>, which is at
  most \<open>len(data)\<close>; the reads \<open>data[i]\<close> of the approaches are in range then.
\<close>

definition extract_device_id :: "pylib \<Rightarrow> bytes \<Rightarrow> nat \<Rightarrow> pystr option \<times> nat" where
  "extract_device_id L data start_idx =
     (case or_else (device_id_structure L data)
            (or_else (device_id_byte_3 L data start_idx)
            (or_else (device_id_byte_98 L data start_idx)
            (or_else (device_id_byte_10 L data start_idx)
               (if 0 < start_idx then
                  or_else (device_id_before_4a L data start_idx)
                 (or_else (device_id_before_4b L data start_idx)
                          (device_id_before_4c L data start_idx))
                else None)))) of
        Some (device_id, end_idx) \<Rightarrow> (Some device_id, end_idx)
      | None \<Rightarrow> (None, start_idx))"

subsection \<open>\<open>_extract_text\<close>\<close>

text \<open>
  The first loop: a tag 24, its varint, then a tag 50 within the next 10 bytes. The
  second loop, run when the first finds nothing: a tag 50 followed by a length in
  \<open>(0, 200]\<close>. Both give \<open>text_start\<close>, the index of the length byte.
\<close>

function text_after_timestamp :: "bytes \<Rightarrow> nat \<Rightarrow> nat option" where
  "text_after_timestamp data i =
     (if i < length data - 1 then
        (if data ! i = 24 \<and> skip_varint data (i + 1) 5 < length data
            \<and> find_byte data 50 (skip_varint data (i + 1) 5)
                  (min (skip_varint data (i + 1) 5 + 10) (length data)) \<noteq> None
         then map_option Suc
                (find_byte data 50 (skip_varint data (i + 1) 5)
                   (min (skip_varint data (i + 1) 5 + 10) (length data)))
         else text_after_timestamp data (Suc i))
      else None)"
  by pat_completeness auto
termination
  by (relation "measure (\<lambda>(data, i). length data - i)") auto

declare text_after_timestamp.simps [simp del]

function text_direct :: "bytes \<Rightarrow> nat \<Rightarrow> nat option" where
  "text_direct data i =
     (if i < length data - 1 then
        (if data ! i = 50 \<and> i + 1 < length data
            \<and> 0 < unat (data ! (i + 1)) \<and> unat (data ! (i + 1)) \<le> 200
         then Some (i + 1)
         else text_direct data (Suc i))
      else None)"
  by pat_completeness auto
termination
  by (relation "measure (\<lambda>(data, i). length data - i)") auto

declare text_direct.simps [simp del]

definition extract_text :: "pylib \<Rightarrow> bytes \<Rightarrow> nat \<Rightarrow> pystr option" where
  "extract_text L data search_from_idx =
     (case or_else (text_after_timestamp data search_from_idx)
                   (text_direct data search_from_idx) of
        None \<Rightarrow> None
      | Some text_start \<Rightarrow>
          if length data \<le> text_start then None
          else
            (let str_len = unat (data ! text_start);
                 text_str_start = text_start + 1
             in if str_len = 0 \<or> 200 < str_len then None
                else if text_str_start + str_len \<le> length data then
                  (let tx = decode_replace L (slice data text_str_start (text_str_start + str_len));
                       text_clean =
                         strip isspace (filter (\<lambda>c. isprintable L c \<or> c \<in> set [10, 13, 9]) tx)
                   in if text_clean \<noteq> [] then Some text_clean else None)
                else None))"

subsection \<open>\<open>_extract_message_id\<close> and \<open>_extract_lang_id\<close>\<close>

definition MESSAGE_ID_PATTERNS :: "bytes list" where
  "MESSAGE_ID_PATTERNS =
     [[24, 0, 32, 1, 45, 0], [24, 0, 1, 32, 1, 45, 0], [24, 0, 45, 0], [24, 0, 1, 45, 0]]"

text \<open>\<open>struct.unpack('<I', bs)[0]\<close> for four bytes.\<close>

definition le_uint32 :: "bytes \<Rightarrow> nat" where
  "le_uint32 bs = foldr (\<lambda>b acc. unat b + 256 * acc) bs 0"

fun try_patterns :: "bytes \<Rightarrow> nat \<Rightarrow> bytes list \<Rightarrow> (nat option \<times> nat) option" where
  "try_patterns data start_idx [] = None"
| "try_patterns data start_idx (pattern # rest) =
     (case find_pattern data pattern start_idx of
        None \<Rightarrow> try_patterns data start_idx rest
      | Some idx \<Rightarrow>
          (let pattern_end = idx + length pattern in
           if pattern_end + 4 \<le> length data then
             (let message_id = le_uint32 (slice data pattern_end (pattern_end + 4)) in
              if pattern_end + 8 \<le> length data
              then Some (Some message_id, le_uint32 (slice data (pattern_end + 4) (pattern_end + 8)))
              else Some (Some message_id, 1))
           else try_patterns data start_idx rest))"

function scan_24 :: "bytes \<Rightarrow> nat \<Rightarrow> nat \<Rightarrow> nat option" where
  "scan_24 data i stop =
     (if i < stop then
        (if data ! i = 24 \<and> i + 5 \<le> length data
         then Some (le_uint32 (slice data (i + 1) (i + 5)))
         else scan_24 data (Suc i) stop)
      else None)"
  by pat_completeness auto
termination
  by (relation "measure (\<lambda>(data, i, stop). stop - i)") auto

declare scan_24.simps [simp del]

definition extract_message_id :: "bytes \<Rightarrow> nat \<Rightarrow> nat option \<times> nat" where
  "extract_message_id data start_idx =
     (case try_patterns data start_idx MESSAGE_ID_PATTERNS of
        Some r \<Rightarrow> r
      | None \<Rightarrow>
          (case scan_24 data start_idx (min (start_idx + 100) (length data)) of
             Some message_id \<Rightarrow> (Some message_id, 1)
           | None \<Rightarrow> (None, 1)))"

fun try_lang_patterns :: "bytes \<Rightarrow> nat \<Rightarrow> bytes list \<Rightarrow> nat option" where
  "try_lang_patterns data start_idx [] = None"
| "try_lang_patterns data start_idx (pattern # rest) =
     (case find_pattern data pattern start_idx of
        None \<Rightarrow> try_lang_patterns data start_idx rest
      | Some idx \<Rightarrow>
          (let pattern_end = idx + length pattern in
           if pattern_end < length data then Some (unat (data ! pattern_end))
           else try_lang_patterns data start_idx rest))"

definition extract_lang_id :: "bytes \<Rightarrow> nat \<Rightarrow> nat option" where
  "extract_lang_id data start_idx = try_lang_patterns data start_idx [[64, 0, 72], [64, 0, 80]]"

subsection \<open>\<open>_decode_protobuf\<close>, \<open>_decompress_gzip\<close> and \<open>decode_raw_data\<close>\<close>

record decoded_event =
  ev_device_id :: pystr
  ev_message_id :: "nat option"
  ev_text :: pystr
  ev_version :: nat
  ev_lang_id :: "nat option"

text \<open>The body of the \<open>try\<close> block of \<open>_decode_protobuf\<close>.\<close>

definition decode_fields :: "pylib \<Rightarrow> bytes \<Rightarrow> pyexn + decoded_event" where
  "decode_fields L data =
     (case find_data_start data of
        None \<Rightarrow> Inl (ValueError NoStartMarker)
      | Some start_idx \<Rightarrow>
          (case extract_device_id L data start_idx of
             (device_id, device_end) \<Rightarrow>
               (let tx = extract_text L data (if 0 < device_end then device_end else start_idx);
                    search_start = (if start_idx < device_end then device_end else start_idx)
                in case extract_message_id data search_start of
                     (message_id, version) \<Rightarrow>
                       Inr \<lparr>ev_device_id = (case device_id of None \<Rightarrow> [] | Some d \<Rightarrow> d),
                            ev_message_id = message_id,
                            ev_text = (case tx of None \<Rightarrow> [] | Some t \<Rightarrow> t),
                            ev_version = (if version = 0 then 1 else version),
                            ev_lang_id = extract_lang_id data search_start\<rparr>)))"

text \<open>
  \<open>except Exception as e: raise ValueError(f"Failed to decode protobuf: {str(e)}")\<close>
  wraps whatever the body raises.
\<close>

definition decode_protobuf :: "pylib \<Rightarrow> bytes \<Rightarrow> pyexn + decoded_event" where
  "decode_protobuf L data =
     (if length data < 10 then Inl (ValueError TooShortForProtobuf)
      else
        (case decode_fields L data of
           Inl e \<Rightarrow> Inl (ValueError (FailedProtobuf e))
         | Inr ev \<Rightarrow> Inr ev))"

text \<open>
  \<open>_decompress_gzip\<close>. In the \<open>elif len(data) > 3\<close> branch the source reads \<open>data[4]\<close>
  when \<open>data[3] == 0x1f\<close>; with four bytes that read is out of range.
\<close>

definition decompress_gzip :: "pylib \<Rightarrow> bytes \<Rightarrow> pyexn + bytes" where
  "decompress_gzip L data =
     (if length data < 2 then Inl (ValueError TooShortForGzip)
      else if data ! 0 = 0x1f \<and> data ! 1 = 0x8b then
        (case gzip_decompress L data of
           None \<Rightarrow> Inl (ValueError FailedGzip)
         | Some d \<Rightarrow> Inr d)
      else if 3 < length data then
        (if data ! 3 = 0x1f then
           (if length data \<le> 4 then Inl IndexError
            else if data ! 4 = 0x8b then
              (case gzip_decompress L (drop 3 data) of
                 None \<Rightarrow> Inl (ValueError FailedGzipOffset3)
               | Some d \<Rightarrow> Inr d)
            else Inr data)
         else Inr data)
      else Inr data)"

text \<open>\<open>decode_raw_data\<close>: the outer handler logs and raises the exception again.\<close>

definition decode_raw_data :: "pylib \<Rightarrow> pystr \<Rightarrow> pyexn + decoded_event" where
  "decode_raw_data L raw_data_base64 =
     (case b64decode L raw_data_base64 of
        None \<Rightarrow> Inl (ValueError FailedBase64)
      | Some raw_bytes \<Rightarrow>
          if raw_bytes = [] then Inl (ValueError EmptyAfterBase64)
          else
            (case decompress_gzip L raw_bytes of
               Inl e \<Rightarrow> Inl e
             | Inr decompressed \<Rightarrow> decode_protobuf L decompressed))"

subsection \<open>A library instance for 7-bit input\<close>

text \<open>
  To run the decoder on concrete buffers the library parameter has to be filled in.
  \<open>ascii_lib\<close> does what CPython does on the inputs used below: base64 text over the
  standard alphabet with canonical padding, and buffers of bytes below 128 that are not
  gzip streams. Its codec maps every byte from 128 on to U+FFFD (\<open>replace\<close>) or drops it
  (\<open>ignore\<close>), U+FFFD is its only printable character outside ASCII, and its
  \<open>gzip_decompress\<close> rejects every input.
\<close>

definition b64_value :: "nat \<Rightarrow> nat option" where
  "b64_value c =
     (if 65 \<le> c \<and> c \<le> 90 then Some (c - 65)
      else if 97 \<le> c \<and> c \<le> 122 then Some (c - 71)
      else if 48 \<le> c \<and> c \<le> 57 then Some (c + 4)
      else if c = 43 then Some 62
      else if c = 47 then Some 63
      else None)"

definition b64_group :: "nat \<Rightarrow> nat \<Rightarrow> nat \<Rightarrow> nat \<Rightarrow> bytes" where
  "b64_group x y z w =
     (let n = ((x * 64 + y) * 64 + z) * 64 + w
      in [of_nat (n div 65536), of_nat (n div 256 mod 256), of_nat (n mod 256)])"

fun b64_strict :: "pystr \<Rightarrow> bytes option" where
  "b64_strict (a # b # c # d # rest) =
     (case (b64_value a, b64_value b) of
        (Some x, Some y) \<Rightarrow>
          if rest = [] \<and> c = 61 \<and> d = 61 then Some (take 1 (b64_group x y 0 0))
          else
            (case b64_value c of
               None \<Rightarrow> None
             | Some z \<Rightarrow>
                 if rest = [] \<and> d = 61 then Some (take 2 (b64_group x y z 0))
                 else
                   (case (b64_value d, b64_strict rest) of
                      (Some w, Some bs) \<Rightarrow> Some (b64_group x y z w @ bs)
                    | _ \<Rightarrow> None))
      | _ \<Rightarrow> None)"
| "b64_strict [] = Some []"
| "b64_strict _ = None"

definition ascii_lib :: pylib where
  "ascii_lib =
     \<lparr>b64decode = b64_strict,
      gzip_decompress = (\<lambda>data. None),
      decode_replace = map (\<lambda>b. if b < 128 then unat b else 0xFFFD),
      decode_ignore = (\<lambda>data. map unat (filter (\<lambda>b. b < 128) data)),
      uni_isprintable = (\<lambda>c. c = 0xFFFD),
      uni_isalnum = (\<lambda>c. False),
      uni_isdigit = (\<lambda>c. False)\<rparr>"

section \<open>Properties of the deduplication cache\<close>

lemma cached_entry_cache_message:
  "cached_entry (cache_message s t0 m mid d tx v) m mid d
     = Some \<lparr>cm_text = tx, cm_version = v, processed_at = t0\<rparr>"
  by (simp add: cached_entry_def cache_message_def Let_def)

lemma mc_ttl_hours_cache_message:
  "mc_ttl_hours (cache_message s t0 m mid d tx v) = mc_ttl_hours s"
  by (simp add: cache_message_def Let_def)

lemma is_duplicate_by_entry:
  "is_duplicate s now m mid d tx v =
     (case cached_entry s m mid d of
        None \<Rightarrow> (False, s)
      | Some c \<Rightarrow>
          if processed_at c + timedelta_hours (mc_ttl_hours s) < now then
            (False, snd (is_duplicate s now m mid d tx v))
          else (cm_text c = tx \<and> cm_version c = v, s))"
  by (auto simp: is_duplicate_def cached_entry_def Let_def split: option.splits)

lemma is_duplicate_evicts:
  assumes "cached_entry s m mid d = Some c"
    and "processed_at c + timedelta_hours (mc_ttl_hours s) < now"
  shows "cached_entry (snd (is_duplicate s now m mid d tx v)) m mid d = None"
  using assms
  by (auto simp: is_duplicate_def cached_entry_def Let_def split: option.splits)

text \<open>
  C3. Recording a message and then asking about the identical message within the TTL
  answers "duplicate"; asking with another text or another version answers "new";
  a key with no entry answers "new" and leaves the cache as it is; an entry whose
  \<open>processed_at\<close> lies more than the TTL (one hour by default) in the past answers "new"
  and is gone from the cache afterwards.
\<close>

theorem record_then_is_duplicate:
  "(\<not> t0 + timedelta_hours (mc_ttl_hours s) < t1 \<longrightarrow>
      fst (is_duplicate (cache_message s t0 m mid d tx v) t1 m mid d tx v) = True)
   \<and> (tx' \<noteq> tx \<or> v' \<noteq> v \<longrightarrow>
      fst (is_duplicate (cache_message s t0 m mid d tx v) t1 m mid d tx' v') = False)
   \<and> (cached_entry s m mid d = None \<longrightarrow>
      is_duplicate s t1 m mid d tx v = (False, s))
   \<and> (cached_entry s m mid d = Some c
        \<and> processed_at c + timedelta_hours (mc_ttl_hours s) < t1 \<longrightarrow>
      fst (is_duplicate s t1 m mid d tx v) = False
      \<and> cached_entry (snd (is_duplicate s t1 m mid d tx v)) m mid d = None)"
proof -
  let ?s' = "cache_message s t0 m mid d tx v"
  have e: "cached_entry ?s' m mid d
             = Some \<lparr>cm_text = tx, cm_version = v, processed_at = t0\<rparr>"
    by (rule cached_entry_cache_message)
  have a: "\<not> t0 + timedelta_hours (mc_ttl_hours s) < t1 \<Longrightarrow>
             fst (is_duplicate ?s' t1 m mid d tx v) = True"
    by (subst is_duplicate_by_entry) (simp add: e mc_ttl_hours_cache_message)
  have b: "tx' \<noteq> tx \<or> v' \<noteq> v \<Longrightarrow> fst (is_duplicate ?s' t1 m mid d tx' v') = False"
    by (subst is_duplicate_by_entry) (auto simp: e mc_ttl_hours_cache_message)
  have c: "cached_entry s m mid d = None \<Longrightarrow> is_duplicate s t1 m mid d tx v = (False, s)"
    by (subst is_duplicate_by_entry) simp
  have d: "cached_entry s m mid d = Some c
             \<and> processed_at c + timedelta_hours (mc_ttl_hours s) < t1 \<Longrightarrow>
           fst (is_duplicate s t1 m mid d tx v) = False
           \<and> cached_entry (snd (is_duplicate s t1 m mid d tx v)) m mid d = None"
    using is_duplicate_evicts [of s m mid d c t1 tx v]
    by (subst is_duplicate_by_entry) simp
  from a b c d show ?thesis by blast
qed

theorem record_then_is_duplicate_witness:
  "fst (is_duplicate
          (cache_message (message_cache_init 1) 0 (lit ''m'') (Some 7) (lit ''dev'') (lit ''hi'') 1)
          3600000000 (lit ''m'') (Some 7) (lit ''dev'') (lit ''hi'') 1) = True
   \<and> fst (is_duplicate
          (cache_message (message_cache_init 1) 0 (lit ''m'') (Some 7) (lit ''dev'') (lit ''hi'') 1)
          3600000000 (lit ''m'') (Some 7) (lit ''dev'') (lit ''ho'') 1) = False
   \<and> is_duplicate (message_cache_init 1) 3600000000 (lit ''m'') (Some 7) (lit ''dev'') (lit ''hi'') 1
       = (False, message_cache_init 1)
   \<and> fst (is_duplicate
          (cache_message (message_cache_init 1) 0 (lit ''m'') (Some 7) (lit ''dev'') (lit ''hi'') 1)
          3600000001 (lit ''m'') (Some 7) (lit ''dev'') (lit ''hi'') 1) = False
   \<and> cached_entry (snd (is_duplicate
          (cache_message (message_cache_init 1) 0 (lit ''m'') (Some 7) (lit ''dev'') (lit ''hi'') 1)
          3600000001 (lit ''m'') (Some 7) (lit ''dev'') (lit ''hi'') 1))
          (lit ''m'') (Some 7) (lit ''dev'') = None"
proof -
  let ?s0 = "message_cache_init 1"
  let ?s1 = "cache_message ?s0 0 (lit ''m'') (Some 7) (lit ''dev'') (lit ''hi'') 1"
  let ?c = "\<lparr>cm_text = lit ''hi'', cm_version = 1, processed_at = 0\<rparr>"
  have ttl0: "mc_ttl_hours ?s0 = 1"
    by (simp add: message_cache_init_def)
  have ttl1: "mc_ttl_hours ?s1 = 1"
    by (simp add: mc_ttl_hours_cache_message ttl0)
  have fresh: "\<not> 0 + timedelta_hours (mc_ttl_hours ?s0) < 3600000000"
    by (simp add: ttl0 timedelta_hours_def)
  have other: "lit ''ho'' \<noteq> lit ''hi'' \<or> (1::int) \<noteq> 1"
    by (simp add: lit_def)
  have absent: "cached_entry ?s0 (lit ''m'') (Some 7) (lit ''dev'') = None"
    by (simp add: cached_entry_def message_cache_init_def)
  have stale: "cached_entry ?s1 (lit ''m'') (Some 7) (lit ''dev'') = Some ?c
                 \<and> processed_at ?c + timedelta_hours (mc_ttl_hours ?s1) < 3600000001"
    by (simp add: cached_entry_cache_message ttl1 timedelta_hours_def)
  note first = record_then_is_duplicate
    [where s = ?s0 and ?t0.0 = 0 and ?t1.0 = 3600000000 and m = "lit ''m''"
       and mid = "Some 7" and d = "lit ''dev''" and tx = "lit ''hi''" and v = 1
       and tx' = "lit ''ho''" and v' = 1]
  note second = record_then_is_duplicate
    [where s = ?s1 and ?t1.0 = 3600000001 and m = "lit ''m''"
       and mid = "Some 7" and d = "lit ''dev''" and tx = "lit ''hi''" and v = 1 and c = ?c]
  from first fresh other absent second stale show ?thesis
    by blast
qed

section \<open>Properties of the identity resolver\<close>

lemma index_get_fst: "fst (index_get s m) = index_or_empty s m"
  by (simp add: index_get_def index_or_empty_def split: option.splits)

lemma index_get_snd_mapping: "mapping (snd (index_get s m)) = mapping s"
  by (simp add: index_get_def split: option.splits)

lemma index_get_snd_idx: "index_or_empty (snd (index_get s m)) m' = index_or_empty s m'"
  by (simp add: index_get_def index_or_empty_def split: option.splits)

lemma index_get_snd_misc:
  "cleanup_times (snd (index_get s m)) = cleanup_times s"
  "ttl_hours (snd (index_get s m)) = ttl_hours s"
  by (simp_all add: index_get_def split: option.splits)

lemma index_variants_mapping: "mapping (index_variants m d vs s) = mapping s"
  by (induction vs arbitrary: s) (auto simp: index_get_def split: option.splits prod.splits)

lemma index_variants_misc:
  "cleanup_times (index_variants m d vs s) = cleanup_times s"
  "ttl_hours (index_variants m d vs s) = ttl_hours s"
  by (induction vs arbitrary: s; auto simp: index_get_def split: option.splits prod.splits)+

lemma index_variants_idx:
  "index_or_empty (index_variants m d vs s) m' k =
     (if m' = m \<and> k \<in> set vs \<and> k \<noteq> [] then Some d else index_or_empty s m' k)"
proof (induction vs arbitrary: s)
  case Nil
  then show ?case by simp
next
  case (Cons v vs)
  show ?case
    by (simp add: Cons.IH) (auto simp: index_get_def index_or_empty_def split: option.splits)
qed

lemma save_mapping_snd:
  "snd (save_mapping h s now m d nm vs) = save_mapping_state s now m d nm vs"
  by (simp add: save_mapping_def Let_def)

lemma save_mapping_fst:
  "fst (save_mapping h s now m d nm vs) =
     (if print_raises h
           ([m, d, nm]
            @ (case mapping s m of
                 None \<Rightarrow> []
               | Some e \<Rightarrow>
                   (case e d of None \<Rightarrow> [] | Some p \<Rightarrow> if name p \<noteq> nm then [name p] else [])))
      then Some UnicodeEncodeError else None)"
  by (simp add: save_mapping_def Let_def split: option.splits)

lemma save_mapping_mapping:
  "mapping (save_mapping_state s now m d nm vs) m' =
     (if m' = m then
        Some ((case mapping s m of None \<Rightarrow> Map.empty | Some e \<Rightarrow> e)
                (d \<mapsto> \<lparr>name = nm, variants = vs, updated_at = now\<rparr>))
      else mapping s m')"
  by (simp add: save_mapping_state_def Let_def index_variants_mapping del: index_variants.simps)

lemma save_mapping_idx:
  "index_or_empty (save_mapping_state s now m d nm vs) m' k =
     (if m' = m \<and> k \<in> set (d # vs) \<and> k \<noteq> [] then Some d
      else if m' = m \<and> mapping s m = None then None
      else index_or_empty s m' k)"
proof -
  let ?s1 = "if mapping s m = None
             then s\<lparr>mapping := (mapping s)(m \<mapsto> Map.empty), index := (index s)(m \<mapsto> Map.empty)\<rparr>
             else s"
  let ?e = "case mapping ?s1 m of None \<Rightarrow> Map.empty | Some e \<Rightarrow> e"
  let ?s2 = "?s1\<lparr>mapping := (mapping ?s1)(m \<mapsto>
                 ?e(d \<mapsto> \<lparr>name = nm, variants = vs, updated_at = now\<rparr>))\<rparr>"
  let ?s3 = "index_variants m d (d # vs) ?s2"
  have "index_or_empty (save_mapping_state s now m d nm vs) m' k = index_or_empty ?s3 m' k"
    by (simp add: save_mapping_state_def Let_def index_or_empty_def del: index_variants.simps)
  also have "\<dots> = (if m' = m \<and> k \<in> set (d # vs) \<and> k \<noteq> [] then Some d
                    else index_or_empty ?s2 m' k)"
    by (rule index_variants_idx)
  also have "index_or_empty ?s2 m' k =
               (if m' = m \<and> mapping s m = None then None else index_or_empty s m' k)"
    by (simp add: index_or_empty_def)
  finally show ?thesis by simp
qed

lemma save_mapping_ttl: "ttl_hours (save_mapping_state s now m d nm vs) = ttl_hours s"
  by (simp add: save_mapping_state_def Let_def index_variants_misc del: index_variants.simps)

lemma save_mapping_cleanup_time:
  "cleanup_times (save_mapping_state s now m d nm vs) m
     = Some (now + timedelta_hours (ttl_hours s))"
  by (simp add: save_mapping_state_def Let_def index_variants_misc del: index_variants.simps)

lemma find_name_fst:
  "fst (find_name_by_device_id h s m d) =
     (case mapping s m of
        None \<Rightarrow> not_found h m d
      | Some entries \<Rightarrow>
          (case entries d of
             Some p \<Rightarrow> Inr (Some (name p))
           | None \<Rightarrow>
               (case (if clean_device_id d \<noteq> [] \<and> clean_device_id d \<noteq> d
                      then entries (clean_device_id d) else None) of
                  Some p \<Rightarrow> Inr (Some (name p))
                | None \<Rightarrow>
                    (case find_via_index entries (index_or_empty s m) d of
                       Some r \<Rightarrow> r
                     | None \<Rightarrow> not_found h m d))))"
  by (simp add: find_name_by_device_id_def Let_def index_get_fst [symmetric]
           split: option.splits prod.splits)

lemma find_name_snd_mapping: "mapping (snd (find_name_by_device_id h s m d)) = mapping s"
  by (simp add: find_name_by_device_id_def Let_def index_get_def split: option.splits prod.splits)

lemma find_name_snd_idx:
  "index_or_empty (snd (find_name_by_device_id h s m d)) m' = index_or_empty s m'"
  by (auto simp: find_name_by_device_id_def Let_def index_get_def index_or_empty_def
           split: option.splits prod.splits)

subsection \<open>The reverse index stays consistent: no lookup raises \<open>KeyError\<close>\<close>

lemma index_consistent_alt:
  "index_consistent s \<longleftrightarrow>
     (\<forall>m entries v c. mapping s m = Some entries \<and> index_or_empty s m v = Some c
        \<longrightarrow> entries c \<noteq> None)"
  unfolding index_consistent_def index_or_empty_def
  by (auto split: option.splits)

lemma via_index_no_error:
  assumes "\<forall>v c. ix v = Some c \<longrightarrow> entries c \<noteq> None"
  shows "via_index entries ix key = None \<or> (\<exists>n. via_index entries ix key = Some (Inr n))"
proof (cases "ix key")
  case None
  then show ?thesis by (simp add: via_index_def)
next
  case (Some c)
  with assms obtain p where "entries c = Some p" by blast
  with Some show ?thesis by (simp add: via_index_def)
qed

lemma or_else_no_error:
  assumes "a = None \<or> (\<exists>n. a = Some (Inr n))" and "b = None \<or> (\<exists>n. b = Some (Inr n))"
  shows "or_else a b = None \<or> (\<exists>n. or_else a b = Some (Inr n))"
  using assms by (auto simp: or_else_def)

lemma find_via_index_no_error:
  assumes "\<forall>v c. ix v = Some c \<longrightarrow> entries c \<noteq> None"
  shows "find_via_index entries ix d = None \<or> (\<exists>n. find_via_index entries ix d = Some (Inr n))"
proof -
  define ok :: "(pyexn + pystr option) option \<Rightarrow> bool"
    where "ok x \<longleftrightarrow> x = None \<or> (\<exists>n. x = Some (Inr n))" for x
  have v: "ok (via_index entries ix key)" for key
    unfolding ok_def by (rule via_index_no_error [OF assms])
  have n: "ok None"
    by (simp add: ok_def)
  have o: "ok a \<Longrightarrow> ok b \<Longrightarrow> ok (or_else a b)" for a b
    unfolding ok_def by (rule or_else_no_error)
  have i: "ok a \<Longrightarrow> ok b \<Longrightarrow> ok (if c then a else b)" for a b c
    by simp
  have "ok (find_via_index entries ix d)"
    unfolding find_via_index_def Let_def
    by (intro o i v n)
  then show ?thesis
    by (simp add: ok_def)
qed

lemma find_name_only_print_raises:
  assumes "index_consistent s"
  shows "(\<exists>r. fst (find_name_by_device_id h s m d) = Inr r)
         \<or> (print_raises h [m, d]
            \<and> fst (find_name_by_device_id h s m d) = Inl UnicodeEncodeError)"
proof (cases "mapping s m")
  case None
  then show ?thesis by (simp add: find_name_fst not_found_def)
next
  case (Some entries)
  with assms have "\<forall>v c. index_or_empty s m v = Some c \<longrightarrow> entries c \<noteq> None"
    by (simp add: index_consistent_alt)
  from find_via_index_no_error [OF this, of d] Some show ?thesis
    by (auto simp: find_name_fst not_found_def split: option.splits)
qed

lemma index_consistent_init: "index_consistent (mapping_service_init ttl)"
  by (simp add: index_consistent_def mapping_service_init_def)

lemma index_consistent_save:
  assumes "index_consistent s"
  shows "index_consistent (save_mapping_state s now m d nm vs)"
  unfolding index_consistent_alt
proof (intro allI impI, elim conjE)
  fix m' entries v c
  assume mp: "mapping (save_mapping_state s now m d nm vs) m' = Some entries"
    and ix: "index_or_empty (save_mapping_state s now m d nm vs) m' v = Some c"
  show "entries c \<noteq> None"
  proof (cases "m' = m")
    case False
    with mp ix assms show ?thesis
      by (auto simp: save_mapping_mapping save_mapping_idx index_consistent_alt)
  next
    case True
    show ?thesis
    proof (cases "v \<in> set (d # vs) \<and> v \<noteq> []")
      case yes: True
      with ix True have "c = d" by (simp add: save_mapping_idx)
      with mp True show ?thesis by (auto simp: save_mapping_mapping)
    next
      case no: False
      with ix True obtain e where e: "mapping s m = Some e" and old: "index_or_empty s m v = Some c"
        by (auto simp: save_mapping_idx split: if_splits)
      with assms have "e c \<noteq> None" by (auto simp: index_consistent_alt)
      with mp True e show ?thesis by (auto simp: save_mapping_mapping)
    qed
  qed
qed

lemma index_consistent_find:
  assumes "index_consistent s"
  shows "index_consistent (snd (find_name_by_device_id h s m d))"
  using assms by (simp add: index_consistent_alt find_name_snd_mapping find_name_snd_idx)

lemma index_consistent_clear:
  assumes "index_consistent s"
  shows "index_consistent (clear_mapping s m)"
  using assms by (auto simp: index_consistent_def clear_mapping_def split: if_splits)

lemma index_consistent_cleanup:
  assumes "index_consistent s"
  shows "index_consistent (cleanup_expired s now)"
  using assms by (auto simp: index_consistent_def cleanup_expired_def split: if_splits)

lemma index_consistent_apply_op:
  "index_consistent s \<Longrightarrow> index_consistent (apply_op h s x)"
  by (cases x)
    (simp_all add: save_mapping_snd index_consistent_save index_consistent_find
       index_consistent_clear index_consistent_cleanup)

lemma index_consistent_run_ops:
  "index_consistent s \<Longrightarrow> index_consistent (run_ops h s ops)"
  unfolding run_ops_def
  by (induction ops arbitrary: s) (simp_all add: index_consistent_apply_op)

text \<open>
  After any history of calls on a new service, every reverse-index entry points to a
  canonical entry of the same meeting, and \<open>find_name_by_device_id\<close> returns a name or
  \<open>None\<close> unless its \<open>print\<close> raises: no lookup raises \<open>KeyError\<close>.
\<close>

lemma resolve_after_history:
  "index_consistent (run_ops h (mapping_service_init ttl) ops)
   \<and> ((\<exists>r. fst (find_name_by_device_id h (run_ops h (mapping_service_init ttl) ops) m d) = Inr r)
      \<or> (print_raises h [m, d]
         \<and> fst (find_name_by_device_id h (run_ops h (mapping_service_init ttl) ops) m d)
             = Inl UnicodeEncodeError))"
  using index_consistent_run_ops [OF index_consistent_init, of h ttl ops]
  by (simp add: find_name_only_print_raises)


subsection \<open>Resolution as a list of lookups\<close>



lemma first_hit_if:
  "first_hit entries ix (if c then xs else ys)
     = (if c then first_hit entries ix xs else first_hit entries ix ys)"
  by simp





lemma find_name_canonical:
  "fst (find_name_by_device_id h (save_mapping_state s now m a nm vs) m a) = Inr (Some nm)"
  by (simp add: find_name_fst save_mapping_mapping)







text \<open>
  \<open>is_duplicate\<close> checks the age of an entry when it reads it: it answers "duplicate"
  only from an entry that is at most the TTL old.
\<close>

lemma is_duplicate_only_live:
  "fst (is_duplicate s now m mid d tx v) = True \<Longrightarrow>
     \<exists>c. cached_entry s m mid d = Some c
         \<and> \<not> processed_at c + timedelta_hours (mc_ttl_hours s) < now"
  by (subst (asm) is_duplicate_by_entry) (auto split: option.splits if_splits)

text \<open>
  A meeting's mapping expires \<open>ttl_hours\<close> after the last \<open>save_mapping\<close> for the meeting,
  and \<open>cleanup_expired\<close>, once called after that time, removes it.
\<close>

lemma mapping_expired_after_save:
  "mapping_expired (save_mapping_state ms t mm a nm vs) now mm
     \<longleftrightarrow> t + timedelta_hours (ttl_hours ms) < now"
  by (simp add: mapping_expired_def save_mapping_cleanup_time)

lemma cleanup_expired_removes:
  "mapping_expired ms now mm \<Longrightarrow> mapping (cleanup_expired ms now) mm = None"
  by (simp add: cleanup_expired_def)

text \<open>
  C6. \<open>find_name_by_device_id\<close> does not read the clock and nothing calls
  \<open>cleanup_expired\<close>: the name saved at time \<open>0\<close> with a TTL of 24 hours is still
  returned when the mapping has been expired for an hour.
\<close>

theorem expired_mapping_returned:
  "mapping_expired
     (snd (save_mapping strict_errors (mapping_service_init 24) 0
             (lit ''m'') (lit ''A'') (lit ''Ann'') []))
     (timedelta_hours 25) (lit ''m'')
   \<and> fst (find_name_by_device_id strict_errors
          (snd (save_mapping strict_errors (mapping_service_init 24) 0
                  (lit ''m'') (lit ''A'') (lit ''Ann'') []))
          (lit ''m'') (lit ''A'')) = Inr (Some (lit ''Ann''))"
  by (simp add: save_mapping_snd mapping_expired_def save_mapping_cleanup_time
        find_name_canonical mapping_service_init_def timedelta_hours_def)

section \<open>Properties of the wire decoder\<close>

lemma skip_varint_numeral:
  "skip_varint data idx (numeral k) =
     (if length data \<le> idx then idx
      else if (data ! idx) AND 0x80 = 0 then idx + 1
      else skip_varint data (idx + 1) (pred_numeral k))"
  by (simp add: numeral_eq_Suc)

lemmas decoder_eval =
  decode_raw_data_def decompress_gzip_def decode_protobuf_def decode_fields_def
  find_data_start_def find_data_start_from.simps skip_varint_numeral
  extract_device_id_def device_id_structure_def device_id_byte_3_def scan_to_3.simps
  device_id_byte_98_def device_id_byte_10_def scan_tag.simps
  device_id_before_4a_def candidate_to_16_def candidate_num_boundary.simps candidate_digits_def
  device_id_before_4b_def search_start_positions_def boundary_scan.simps boundary_candidate_def
  device_id_before_4c_def scan_tag_before.simps
  extract_text_def text_after_timestamp.simps text_direct.simps
  extract_message_id_def MESSAGE_ID_PATTERNS_def scan_24.simps le_uint32_def
  extract_lang_id_def find_pattern_def find_from.simps find_byte.simps
  contains_def or_else_def slice_def Let_def lit_def blit_def
  strip_nul_ws_def strip_nul_def strip_def isspace_def
  is_valid_device_id_def isprintable_def isalnum_def isdigit_def path_chars_def id_chars_def
  split_ws_def py_split_def
  ascii_lib_def b64_value_def b64_group_def

lemma sample_buffer_base64:
  "b64decode ascii_lib (lit ''EAEDFHNwYWNlcy9YL2RldmljZXMvMTIzGAUyBHRlc3QYAC0ABwAAAAIAAAA='')
     = Some ([16, 1, 3, 20] @ blit ''spaces/X/devices/123'' @ [24, 5, 50, 4] @ blit ''test''
             @ [24, 0, 45, 0, 7, 0, 0, 0, 2, 0, 0, 0])"
  by (simp add: ascii_lib_def lit_def blit_def b64_value_def b64_group_def)

lemma sample_buffer_device_id:
  "extract_device_id ascii_lib
     ([16, 1, 3, 20] @ blit ''spaces/X/devices/123'' @ [24, 5, 50, 4] @ blit ''test''
      @ [24, 0, 45, 0, 7, 0, 0, 0, 2, 0, 0, 0]) 2
     = (Some (lit ''spaces/X/devices/123''), 24)"
  by (simp add: decoder_eval)

lemma sample_buffer_event:
  "decode_protobuf ascii_lib
     ([16, 1, 3, 20] @ blit ''spaces/X/devices/123'' @ [24, 5, 50, 4] @ blit ''test''
      @ [24, 0, 45, 0, 7, 0, 0, 0, 2, 0, 0, 0])
     = Inr \<lparr>ev_device_id = lit ''spaces/X/devices/123'', ev_message_id = Some 7,
            ev_text = lit ''test'', ev_version = 2, ev_lang_id = None\<rparr>"
  by (simp add: decoder_eval)

lemma sample_base64_event:
  "decode_raw_data ascii_lib
     (lit ''EAEDFHNwYWNlcy9YL2RldmljZXMvMTIzGAUyBHRlc3QYAC0ABwAAAAIAAAA='')
     = Inr \<lparr>ev_device_id = lit ''spaces/X/devices/123'', ev_message_id = Some 7,
            ev_text = lit ''test'', ev_version = 2, ev_lang_id = None\<rparr>"
  unfolding decode_raw_data_def sample_buffer_base64
  by (simp add: decompress_gzip_def blit_def lit_def sample_buffer_event [unfolded blit_def lit_def, simplified])

lemma empty_event_base64:
  "b64decode ascii_lib (lit ''EAAAAAAAAAAAAA=='') = Some [16, 0, 0, 0, 0, 0, 0, 0, 0, 0]"
  by (simp add: ascii_lib_def lit_def b64_value_def b64_group_def)

lemma empty_event:
  "decode_protobuf ascii_lib [16, 0, 0, 0, 0, 0, 0, 0, 0, 0]
     = Inr \<lparr>ev_device_id = [], ev_message_id = None, ev_text = [], ev_version = 1,
            ev_lang_id = None\<rparr>"
  by (simp add: decoder_eval)

lemma find_data_start_from_None:
  "find_data_start_from data i = None \<longleftrightarrow> (\<forall>j. i \<le> j \<and> j < length data - 1 \<longrightarrow> data ! j \<noteq> 16)"
proof (induction data i rule: find_data_start_from.induct)
  case (1 data i)
  show ?case
  proof (cases "i < length data - 1")
    case False
    then show ?thesis by (subst find_data_start_from.simps) auto
  next
    case True
    show ?thesis
    proof (cases "data ! i = 16")
      case yes: True
      with True show ?thesis
        by (subst find_data_start_from.simps) auto
    next
      case no: False
      have "(\<forall>j. i \<le> j \<and> j < length data - 1 \<longrightarrow> data ! j \<noteq> 16)
              \<longleftrightarrow> (\<forall>j. Suc i \<le> j \<and> j < length data - 1 \<longrightarrow> data ! j \<noteq> 16)"
        using no by (metis Suc_leI le_neq_implies_less Suc_leD)
      with True no "1.IH" show ?thesis
        by (subst find_data_start_from.simps) simp
    qed
  qed
qed

lemma find_data_start_from_first:
  assumes "i \<le> k" and "k < length data - 1" and "data ! k = 16"
    and "\<forall>j. i \<le> j \<and> j < k \<longrightarrow> data ! j \<noteq> 16"
  shows "find_data_start_from data i = Some (if data ! (k + 1) = 1 then k + 2 else k + 1)"
  using assms
proof (induction data i rule: find_data_start_from.induct)
  case (1 data i)
  show ?case
  proof (cases "i = k")
    case True
    with "1.prems" show ?thesis
      by (subst find_data_start_from.simps) auto
  next
    case False
    with "1.prems" have lt: "i < k" and ne: "data ! i \<noteq> 16" by auto
    with "1.prems" have "find_data_start_from data (Suc i)
                           = Some (if data ! (k + 1) = 1 then k + 2 else k + 1)"
      by (intro "1.IH") auto
    with lt ne "1.prems" show ?thesis
      by (subst find_data_start_from.simps) simp
  qed
qed

lemma find_data_start_le:
  "find_data_start_from data i = Some r \<Longrightarrow> 0 < r \<and> r \<le> length data"
proof (induction data i rule: find_data_start_from.induct)
  case (1 data i)
  then show ?case
    by (subst (asm) (2) find_data_start_from.simps) (auto split: if_splits)
qed

lemma decode_fields_None:
  "find_data_start data = None \<Longrightarrow> decode_fields L data = Inl (ValueError NoStartMarker)"
  by (simp add: decode_fields_def)

lemma decode_fields_Some:
  "find_data_start data = Some start_idx \<Longrightarrow> \<exists>ev. decode_fields L data = Inr ev"
  by (simp add: decode_fields_def Let_def split: prod.splits)

lemma decode_protobuf_fails_iff:
  assumes "10 \<le> length data"
  shows "(\<exists>e. decode_protobuf L data = Inl e) \<longleftrightarrow> find_data_start data = None"
proof (cases "find_data_start data")
  case None
  with assms show ?thesis
    by (simp add: decode_protobuf_def decode_fields_None)
next
  case (Some start_idx)
  from decode_fields_Some [OF this, of L] obtain ev where "decode_fields L data = Inr ev" ..
  with assms Some show ?thesis
    by (simp add: decode_protobuf_def)
qed

text \<open>
  C7 (amended). A buffer of fewer than 10 bytes is rejected as too short. A buffer of
  at least 10 bytes without a byte 16 fails with the start-marker error. When a byte 16
  stands before the last position of such a buffer, field extraction does not fail and
  the data start lies at the first such index \<open>i\<close>: at \<open>i + 2\<close> if the byte at \<open>i + 1\<close>
  is 1, at \<open>i + 1\<close> otherwise.
\<close>

theorem start_marker:
  "(length data < 10 \<longrightarrow> decode_protobuf L data = Inl (ValueError TooShortForProtobuf))
   \<and> (10 \<le> length data \<and> 16 \<notin> set data \<longrightarrow>
        decode_protobuf L data = Inl (ValueError (FailedProtobuf (ValueError NoStartMarker))))
   \<and> (10 \<le> length data \<and> i < length data - 1 \<and> data ! i = 16
        \<and> (\<forall>j. j < i \<longrightarrow> data ! j \<noteq> 16) \<longrightarrow>
        find_data_start data = Some (if data ! (i + 1) = 1 then i + 2 else i + 1)
        \<and> (\<exists>ev. decode_protobuf L data = Inr ev))"
proof (intro conjI)
  show "length data < 10 \<longrightarrow> decode_protobuf L data = Inl (ValueError TooShortForProtobuf)"
    by (simp add: decode_protobuf_def)
next
  show "10 \<le> length data \<and> 16 \<notin> set data \<longrightarrow>
        decode_protobuf L data = Inl (ValueError (FailedProtobuf (ValueError NoStartMarker)))"
  proof (rule impI)
    assume a: "10 \<le> length data \<and> 16 \<notin> set data"
    have "data ! j \<noteq> 16" if "j < length data - 1" for j
    proof -
      from that have "j < length data" by simp
      then have "data ! j \<in> set data" by (rule nth_mem)
      with a show ?thesis by metis
    qed
    then have "\<forall>j. 0 \<le> j \<and> j < length data - 1 \<longrightarrow> data ! j \<noteq> 16"
      by simp
    then have "find_data_start data = None"
      by (simp add: find_data_start_def find_data_start_from_None)
    then have "decode_fields L data = Inl (ValueError NoStartMarker)"
      by (rule decode_fields_None)
    with a show "decode_protobuf L data
                   = Inl (ValueError (FailedProtobuf (ValueError NoStartMarker)))"
      by (simp add: decode_protobuf_def)
  qed
next
  show "10 \<le> length data \<and> i < length data - 1 \<and> data ! i = 16
        \<and> (\<forall>j. j < i \<longrightarrow> data ! j \<noteq> 16) \<longrightarrow>
        find_data_start data = Some (if data ! (i + 1) = 1 then i + 2 else i + 1)
        \<and> (\<exists>ev. decode_protobuf L data = Inr ev)"
  proof (rule impI)
    assume a: "10 \<le> length data \<and> i < length data - 1 \<and> data ! i = 16
                 \<and> (\<forall>j. j < i \<longrightarrow> data ! j \<noteq> 16)"
    then have st: "find_data_start data = Some (if data ! (i + 1) = 1 then i + 2 else i + 1)"
      unfolding find_data_start_def by (intro find_data_start_from_first) auto
    from decode_fields_Some [OF st, of L] obtain ev where "decode_fields L data = Inr ev" ..
    with a have "decode_protobuf L data = Inr ev"
      by (simp add: decode_protobuf_def)
    with st show "find_data_start data = Some (if data ! (i + 1) = 1 then i + 2 else i + 1)
                  \<and> (\<exists>ev. decode_protobuf L data = Inr ev)"
      by blast
  qed
qed

theorem start_marker_witness:
  "decode_protobuf ascii_lib [16, 1, 3] = Inl (ValueError TooShortForProtobuf)
   \<and> decode_protobuf ascii_lib [0, 0, 0, 0, 0, 0, 0, 0, 0, 0]
       = Inl (ValueError (FailedProtobuf (ValueError NoStartMarker)))
   \<and> find_data_start [0, 16, 1, 0, 0, 0, 0, 0, 0, 0, 16] = Some 3
   \<and> (\<exists>ev. decode_protobuf ascii_lib [0, 16, 1, 0, 0, 0, 0, 0, 0, 0, 16] = Inr ev)
   \<and> find_data_start [0, 16, 2, 0, 0, 0, 0, 0, 0, 0, 16] = Some 2"
proof -
  let ?z = "[0, 0, 0, 0, 0, 0, 0, 0, 0, 0] :: bytes"
  let ?a = "[0, 16, 1, 0, 0, 0, 0, 0, 0, 0, 16] :: bytes"
  let ?b = "[0, 16, 2, 0, 0, 0, 0, 0, 0, 0, 16] :: bytes"
  have short: "length [16, 1, 3 :: byte] < 10" by simp
  have z: "10 \<le> length ?z \<and> 16 \<notin> set ?z"
    by simp
  have a: "10 \<le> length ?a \<and> 1 < length ?a - 1 \<and> ?a ! 1 = 16
             \<and> (\<forall>j. j < 1 \<longrightarrow> ?a ! j \<noteq> 16)"
    by simp
  have b: "10 \<le> length ?b \<and> 1 < length ?b - 1 \<and> ?b ! 1 = 16
             \<and> (\<forall>j. j < 1 \<longrightarrow> ?b ! j \<noteq> 16)"
    by simp
  from start_marker [where L = ascii_lib and data = "[16, 1, 3]"] short
  have 1: "decode_protobuf ascii_lib [16, 1, 3] = Inl (ValueError TooShortForProtobuf)"
    by blast
  from start_marker [where L = ascii_lib and data = ?z] z
  have 2: "decode_protobuf ascii_lib ?z
             = Inl (ValueError (FailedProtobuf (ValueError NoStartMarker)))"
    by blast
  from start_marker [where L = ascii_lib and data = ?a and i = 1] a
  have "find_data_start ?a = Some (if ?a ! (1 + 1) = 1 then 1 + 2 else 1 + 1)
        \<and> (\<exists>ev. decode_protobuf ascii_lib ?a = Inr ev)"
    by blast
  then have 3: "find_data_start ?a = Some 3 \<and> (\<exists>ev. decode_protobuf ascii_lib ?a = Inr ev)"
    by simp
  from start_marker [where L = ascii_lib and data = ?b and i = 1] b
  have "find_data_start ?b = Some (if ?b ! (1 + 1) = 1 then 1 + 2 else 1 + 1)"
    by blast
  then have 4: "find_data_start ?b = Some 2" by simp
  from 1 2 3 4 show ?thesis by simp
qed

text \<open>
  The claim as stated fails on buffers of fewer than 10 bytes: one with a byte 16 is
  rejected, and one without is rejected as too short, not for the missing marker. It
  also fails on the ten bytes whose only byte 16 is the last one: \<open>_find_data_start\<close>
  scans \<open>range(len(data) - 1)\<close> and reports no marker.
\<close>

theorem start_marker_counterexample:
  "16 \<in> set [16, 1, 3 :: byte]
   \<and> decode_protobuf ascii_lib [16, 1, 3] = Inl (ValueError TooShortForProtobuf)
   \<and> 16 \<notin> set [0, 0, 0 :: byte]
   \<and> decode_protobuf ascii_lib [0, 0, 0] = Inl (ValueError TooShortForProtobuf)
   \<and> 16 \<in> set [0, 0, 0, 0, 0, 0, 0, 0, 0, 16 :: byte]
   \<and> decode_protobuf ascii_lib [0, 0, 0, 0, 0, 0, 0, 0, 0, 16]
       = Inl (ValueError (FailedProtobuf (ValueError NoStartMarker)))"
  by (simp add: decode_protobuf_def decode_fields_def find_data_start_def
        find_data_start_from.simps)

lemma is_valid_nonempty: "is_valid_device_id L d \<Longrightarrow> d \<noteq> []"
  by (auto simp: is_valid_device_id_def Let_def)

lemma device_id_structure_accepts:
  "device_id_structure L data = Some (d, e) \<Longrightarrow>
     d \<noteq> [] \<and> (contains (lit ''spaces/'') d \<or> contains (lit ''/devices/'') d)"
  by (auto simp: device_id_structure_def Let_def split: if_splits)

lemma device_id_byte_3_accepts:
  "device_id_byte_3 L data start_idx = Some (d, e) \<Longrightarrow> is_valid_device_id L d"
  by (auto simp: device_id_byte_3_def Let_def split: if_splits)

lemma scan_tag_accepts:
  "scan_tag L data tag min_len idx search_limit = Some (d, e) \<Longrightarrow> is_valid_device_id L d"
proof (induction L data tag min_len idx search_limit rule: scan_tag.induct)
  case (1 L data tag min_len idx search_limit)
  define str_len where "str_len = unat (data ! (idx + 1))"
  define device_id where
    "device_id = strip_nul_ws (decode_replace L (slice data (idx + 2) (idx + 2 + str_len)))"
  note ih_long = "1.IH"(1) [OF _ _ _ str_len_def device_id_def]
  note ih_rejected = "1.IH"(2) [OF _ _ _ str_len_def device_id_def]
  have eq: "scan_tag L data tag min_len idx search_limit =
     (if idx < search_limit then
        (if data ! idx = tag then
           (if length data \<le> idx + 1 then None
            else if 200 < str_len then scan_tag L data tag min_len (idx + 1) search_limit
            else if idx + 2 + str_len \<le> length data \<and> 0 < str_len
                    \<and> device_id \<noteq> [] \<and> min_len < length device_id
                    \<and> is_valid_device_id L device_id
              then Some (device_id, idx + 2 + str_len)
            else scan_tag L data tag min_len (idx + 3) search_limit)
         else scan_tag L data tag min_len (idx + 1) search_limit)
      else None)"
    unfolding str_len_def device_id_def by (subst scan_tag.simps) (simp only: Let_def)
  from "1.prems" consider
      (next_byte) "idx < search_limit" "data ! idx \<noteq> tag"
        "scan_tag L data tag min_len (idx + 1) search_limit = Some (d, e)"
    | (long) "idx < search_limit" "data ! idx = tag" "\<not> length data \<le> idx + 1" "200 < str_len"
        "scan_tag L data tag min_len (idx + 1) search_limit = Some (d, e)"
    | (hit) "d = device_id" "is_valid_device_id L device_id"
    | (rejected) "idx < search_limit" "data ! idx = tag" "\<not> length data \<le> idx + 1"
        "\<not> 200 < str_len"
        "\<not> (idx + 2 + str_len \<le> length data \<and> 0 < str_len \<and> device_id \<noteq> []
            \<and> min_len < length device_id \<and> is_valid_device_id L device_id)"
        "scan_tag L data tag min_len (idx + 3) search_limit = Some (d, e)"
    unfolding eq by (auto split: if_splits)
  then show ?case
  proof cases
    case next_byte
    then show ?thesis by (rule "1.IH"(3))
  next
    case long
    then show ?thesis by (rule ih_long)
  next
    case hit
    then show ?thesis by simp
  next
    case rejected
    then show ?thesis by (rule ih_rejected)
  qed
qed

lemma scan_tag_before_accepts:
  "scan_tag_before L data tag_byte idx start_idx = Some (d, e) \<Longrightarrow> is_valid_device_id L d"
proof (induction L data tag_byte idx start_idx rule: scan_tag_before.induct)
  case (1 L data tag_byte idx start_idx)
  define str_len where "str_len = unat (data ! (idx + 1))"
  define device_id where
    "device_id = strip_nul_ws (decode_replace L (slice data (idx + 2) (idx + 2 + str_len)))"
  note ih_skip = "1.IH"(1) [OF _ _ _ str_len_def device_id_def]
  note ih_rejected = "1.IH"(2) [OF _ _ _ str_len_def device_id_def]
  have eq: "scan_tag_before L data tag_byte idx start_idx =
     (if idx < start_idx then
        (if data ! idx = tag_byte then
           (if length data \<le> idx + 1 then None
            else if 200 < str_len \<or> str_len = 0 then
              scan_tag_before L data tag_byte (idx + 1) start_idx
            else if idx + 2 + str_len \<le> length data \<and> idx + 2 + str_len \<le> start_idx
                    \<and> device_id \<noteq> [] \<and> is_valid_device_id L device_id
              then Some (device_id, idx + 2 + str_len)
            else scan_tag_before L data tag_byte (idx + 3) start_idx)
         else scan_tag_before L data tag_byte (idx + 1) start_idx)
      else None)"
    unfolding str_len_def device_id_def by (subst scan_tag_before.simps) (simp only: Let_def)
  from "1.prems" consider
      (next_byte) "idx < start_idx" "data ! idx \<noteq> tag_byte"
        "scan_tag_before L data tag_byte (idx + 1) start_idx = Some (d, e)"
    | (skip) "idx < start_idx" "data ! idx = tag_byte" "\<not> length data \<le> idx + 1"
        "200 < str_len \<or> str_len = 0"
        "scan_tag_before L data tag_byte (idx + 1) start_idx = Some (d, e)"
    | (hit) "d = device_id" "is_valid_device_id L device_id"
    | (rejected) "idx < start_idx" "data ! idx = tag_byte" "\<not> length data \<le> idx + 1"
        "\<not> (200 < str_len \<or> str_len = 0)"
        "\<not> (idx + 2 + str_len \<le> length data \<and> idx + 2 + str_len \<le> start_idx
            \<and> device_id \<noteq> [] \<and> is_valid_device_id L device_id)"
        "scan_tag_before L data tag_byte (idx + 3) start_idx = Some (d, e)"
    unfolding eq by (auto split: if_splits)
  then show ?case
  proof cases
    case next_byte
    then show ?thesis by (rule "1.IH"(3))
  next
    case skip
    then show ?thesis by (rule ih_skip)
  next
    case hit
    then show ?thesis by simp
  next
    case rejected
    then show ?thesis by (rule ih_rejected)
  qed
qed

lemma device_id_before_4a_accepts:
  "device_id_before_4a L data start_idx = Some (d, e) \<Longrightarrow> is_valid_device_id L d"
  unfolding device_id_before_4a_def Let_def
  by (auto split: if_splits)

lemma boundary_candidate_accepts:
  "boundary_candidate L data str_start str_end = Some (d, e) \<Longrightarrow> is_valid_device_id L d"
  unfolding boundary_candidate_def Let_def
  by (auto split: if_splits)

lemma boundary_scan_accepts:
  "boundary_scan L data str_start boundary_idx start_idx = Some (d, e) \<Longrightarrow> is_valid_device_id L d"
proof (induction L data str_start boundary_idx start_idx rule: boundary_scan.induct)
  case (1 L data str_start boundary_idx start_idx)
  from "1.prems" consider
      (hit) "boundary_candidate L data str_start boundary_idx = Some (d, e)"
    | (further) "boundary_idx < start_idx"
        "\<not> (data ! boundary_idx = 16 \<and> boundary_candidate L data str_start boundary_idx \<noteq> None)"
        "boundary_scan L data str_start (Suc boundary_idx) start_idx = Some (d, e)"
    by (subst (asm) boundary_scan.simps) (auto split: if_splits)
  then show ?case
  proof cases
    case hit
    then show ?thesis by (rule boundary_candidate_accepts)
  next
    case further
    then show ?thesis by (rule "1.IH")
  qed
qed

lemma device_id_from_positions_accepts:
  "device_id_from_positions L data start_idx positions = Some (d, e) \<Longrightarrow> is_valid_device_id L d"
  by (induction positions) (auto split: if_splits option.splits intro: boundary_scan_accepts)

lemma device_id_before_4c_accepts:
  "device_id_before_4c L data start_idx = Some (d, e) \<Longrightarrow> is_valid_device_id L d"
  by (auto simp: device_id_before_4c_def Let_def or_else_def split: option.splits
           intro: scan_tag_before_accepts)

lemma or_else_SomeE:
  assumes "or_else a b = Some x"
  obtains "a = Some x" | "b = Some x"
  using assms by (auto simp: or_else_def split: option.splits)

lemma extract_device_id_accepts:
  assumes "extract_device_id L data start_idx = (Some d, e)"
  shows "d \<noteq> [] \<and> (contains (lit ''spaces/'') d \<or> contains (lit ''/devices/'') d
                    \<or> is_valid_device_id L d)"
proof -
  from assms have
    "or_else (device_id_structure L data)
       (or_else (device_id_byte_3 L data start_idx)
       (or_else (device_id_byte_98 L data start_idx)
       (or_else (device_id_byte_10 L data start_idx)
          (if 0 < start_idx then
             or_else (device_id_before_4a L data start_idx)
            (or_else (device_id_before_4b L data start_idx)
                     (device_id_before_4c L data start_idx))
           else None)))) = Some (d, e)"
    by (auto simp: extract_device_id_def split: option.splits)
  then consider
      (nested) "device_id_structure L data = Some (d, e)"
    | (b3) "device_id_byte_3 L data start_idx = Some (d, e)"
    | (b98) "device_id_byte_98 L data start_idx = Some (d, e)"
    | (b10) "device_id_byte_10 L data start_idx = Some (d, e)"
    | (a4a) "device_id_before_4a L data start_idx = Some (d, e)"
    | (a4b) "device_id_before_4b L data start_idx = Some (d, e)"
    | (a4c) "device_id_before_4c L data start_idx = Some (d, e)"
    by (auto elim!: or_else_SomeE split: if_splits)
  then have "(d \<noteq> [] \<and> (contains (lit ''spaces/'') d \<or> contains (lit ''/devices/'') d))
             \<or> is_valid_device_id L d"
  proof cases
    case nested
    then show ?thesis by (simp add: device_id_structure_accepts)
  next
    case b3
    then show ?thesis by (simp add: device_id_byte_3_accepts)
  next
    case b98
    then show ?thesis unfolding device_id_byte_98_def by (simp add: scan_tag_accepts)
  next
    case b10
    then show ?thesis unfolding device_id_byte_10_def by (simp add: scan_tag_accepts)
  next
    case a4a
    then show ?thesis by (simp add: device_id_before_4a_accepts)
  next
    case a4b
    then show ?thesis
      unfolding device_id_before_4b_def by (simp add: device_id_from_positions_accepts)
  next
    case a4c
    then show ?thesis by (simp add: device_id_before_4c_accepts)
  qed
  then show ?thesis using is_valid_nonempty by blast
qed

lemma decode_raw_data_Inr:
  assumes "decode_raw_data L raw = Inr ev"
  obtains raw_bytes buf where
    "b64decode L raw = Some raw_bytes" "decompress_gzip L raw_bytes = Inr buf"
    "10 \<le> length buf" "decode_fields L buf = Inr ev"
proof -
  from assms obtain raw_bytes buf where
    1: "b64decode L raw = Some raw_bytes" "decompress_gzip L raw_bytes = Inr buf"
    and "decode_protobuf L buf = Inr ev"
    by (auto simp: decode_raw_data_def split: option.splits if_splits sum.splits)
  then have "10 \<le> length buf" "decode_fields L buf = Inr ev"
    by (auto simp: decode_protobuf_def split: if_splits sum.splits)
  with 1 show ?thesis by (rule that)
qed

lemma decode_fields_Inr:
  assumes "decode_fields L data = Inr ev"
  obtains start_idx device_id device_end where
    "find_data_start data = Some start_idx"
    "extract_device_id L data start_idx = (device_id, device_end)"
    "ev_device_id ev = (case device_id of None \<Rightarrow> [] | Some d \<Rightarrow> d)"
    "ev_text ev =
       (case extract_text L data (if 0 < device_end then device_end else start_idx) of
          None \<Rightarrow> [] | Some t \<Rightarrow> t)"
  using assms
  by (auto simp: decode_fields_def Let_def split: option.splits prod.splits)

lemma extract_text_nonempty: "extract_text L data i = Some t \<Longrightarrow> t \<noteq> []"
  by (auto simp: extract_text_def Let_def split: option.splits if_splits)

text \<open>
  C1. Whenever \<open>_extract_device_id\<close> returns a string, the string is not empty and it
  contains \<open>spaces/\<close> or \<open>/devices/\<close> or satisfies \<open>_is_valid_device_id\<close>; the same
  holds for a non-empty \<open>device_id\<close> of an event that \<open>decode_raw_data\<close> returns.
\<close>

theorem device_id_fails_closed:
  "(start_idx \<le> length data \<and> extract_device_id L data start_idx = (Some d, e) \<longrightarrow>
      d \<noteq> [] \<and> (contains (lit ''spaces/'') d \<or> contains (lit ''/devices/'') d
                  \<or> is_valid_device_id L d))
   \<and> (decode_raw_data L raw = Inr ev \<and> ev_device_id ev \<noteq> [] \<longrightarrow>
        contains (lit ''spaces/'') (ev_device_id ev) \<or> contains (lit ''/devices/'') (ev_device_id ev)
        \<or> is_valid_device_id L (ev_device_id ev))"
proof (rule conjI)
  show "start_idx \<le> length data \<and> extract_device_id L data start_idx = (Some d, e) \<longrightarrow>
          d \<noteq> [] \<and> (contains (lit ''spaces/'') d \<or> contains (lit ''/devices/'') d
                      \<or> is_valid_device_id L d)"
    using extract_device_id_accepts by blast
next
  show "decode_raw_data L raw = Inr ev \<and> ev_device_id ev \<noteq> [] \<longrightarrow>
          contains (lit ''spaces/'') (ev_device_id ev) \<or> contains (lit ''/devices/'') (ev_device_id ev)
          \<or> is_valid_device_id L (ev_device_id ev)"
  proof (rule impI)
    assume a: "decode_raw_data L raw = Inr ev \<and> ev_device_id ev \<noteq> []"
    then obtain data where "decode_fields L data = Inr ev"
      using decode_raw_data_Inr by metis
    then obtain start_idx device_id device_end where
      x: "extract_device_id L data start_idx = (device_id, device_end)"
      and d: "ev_device_id ev = (case device_id of None \<Rightarrow> [] | Some d \<Rightarrow> d)"
      by (rule decode_fields_Inr)
    from a d obtain dv where "device_id = Some dv" "ev_device_id ev = dv"
      by (cases device_id) auto
    with x extract_device_id_accepts [of L data start_idx dv device_end]
    show "contains (lit ''spaces/'') (ev_device_id ev)
          \<or> contains (lit ''/devices/'') (ev_device_id ev)
          \<or> is_valid_device_id L (ev_device_id ev)"
      by simp
  qed
qed

theorem device_id_fails_closed_witness:
  "extract_device_id ascii_lib
     ([16, 1, 3, 20] @ blit ''spaces/X/devices/123'' @ [24, 5, 50, 4] @ blit ''test''
      @ [24, 0, 45, 0, 7, 0, 0, 0, 2, 0, 0, 0]) 2
     = (Some (lit ''spaces/X/devices/123''), 24)
   \<and> decode_raw_data ascii_lib
         (lit ''EAEDFHNwYWNlcy9YL2RldmljZXMvMTIzGAUyBHRlc3QYAC0ABwAAAAIAAAA='')
       = Inr \<lparr>ev_device_id = lit ''spaces/X/devices/123'', ev_message_id = Some 7,
              ev_text = lit ''test'', ev_version = 2, ev_lang_id = None\<rparr>
   \<and> (contains (lit ''spaces/'') (lit ''spaces/X/devices/123'')
        \<or> contains (lit ''/devices/'') (lit ''spaces/X/devices/123'')
        \<or> is_valid_device_id ascii_lib (lit ''spaces/X/devices/123''))"
proof -
  let ?buf = "[16, 1, 3, 20] @ blit ''spaces/X/devices/123'' @ [24, 5, 50, 4] @ blit ''test''
              @ [24, 0, 45, 0, 7, 0, 0, 0, 2, 0, 0, 0]"
  let ?raw = "lit ''EAEDFHNwYWNlcy9YL2RldmljZXMvMTIzGAUyBHRlc3QYAC0ABwAAAAIAAAA=''"
  let ?ev = "\<lparr>ev_device_id = lit ''spaces/X/devices/123'', ev_message_id = Some 7,
              ev_text = lit ''test'', ev_version = 2, ev_lang_id = None\<rparr>"
  have h1: "2 \<le> length ?buf
            \<and> extract_device_id ascii_lib ?buf 2 = (Some (lit ''spaces/X/devices/123''), 24)"
    using sample_buffer_device_id by (simp add: blit_def lit_def)
  have h2: "decode_raw_data ascii_lib ?raw = Inr ?ev \<and> ev_device_id ?ev \<noteq> []"
    using sample_base64_event by (simp add: lit_def)
  from device_id_fails_closed
         [where L = ascii_lib and data = ?buf and start_idx = 2
            and d = "lit ''spaces/X/devices/123''" and e = 24 and raw = ?raw and ev = ?ev]
       h1 h2
  show ?thesis by simp
qed

text \<open>
  C2 (amended). \<open>_extract_text\<close> never returns an empty string, and the \<open>text\<close> of an
  event returned by \<open>decode_raw_data\<close> is the string that \<open>_extract_text\<close> found in
  the decompressed buffer, or the empty string when it found none.
\<close>

theorem decoded_text:
  "(extract_text L data i = Some t \<longrightarrow> t \<noteq> [])
   \<and> (decode_raw_data L raw = Inr ev \<longrightarrow>
        (\<exists>raw_bytes buf start_idx.
           b64decode L raw = Some raw_bytes \<and> decompress_gzip L raw_bytes = Inr buf
           \<and> find_data_start buf = Some start_idx
           \<and> extract_text L buf
                 (if 0 < snd (extract_device_id L buf start_idx)
                  then snd (extract_device_id L buf start_idx) else start_idx)
               = (if ev_text ev = [] then None else Some (ev_text ev))))"
proof (rule conjI)
  show "extract_text L data i = Some t \<longrightarrow> t \<noteq> []"
    using extract_text_nonempty by blast
next
  show "decode_raw_data L raw = Inr ev \<longrightarrow>
        (\<exists>raw_bytes buf start_idx.
           b64decode L raw = Some raw_bytes \<and> decompress_gzip L raw_bytes = Inr buf
           \<and> find_data_start buf = Some start_idx
           \<and> extract_text L buf
                 (if 0 < snd (extract_device_id L buf start_idx)
                  then snd (extract_device_id L buf start_idx) else start_idx)
               = (if ev_text ev = [] then None else Some (ev_text ev)))"
  proof (rule impI)
    assume "decode_raw_data L raw = Inr ev"
    then obtain raw_bytes buf where
      r: "b64decode L raw = Some raw_bytes" "decompress_gzip L raw_bytes = Inr buf"
      and f: "decode_fields L buf = Inr ev"
      by (rule decode_raw_data_Inr)
    from f obtain start_idx device_id device_end where
      s: "find_data_start buf = Some start_idx"
      and x: "extract_device_id L buf start_idx = (device_id, device_end)"
      and t: "ev_text ev =
                (case extract_text L buf (if 0 < device_end then device_end else start_idx) of
                   None \<Rightarrow> [] | Some t \<Rightarrow> t)"
      by (rule decode_fields_Inr)
    let ?from = "if 0 < snd (extract_device_id L buf start_idx)
                 then snd (extract_device_id L buf start_idx) else start_idx"
    have "extract_text L buf ?from = (if ev_text ev = [] then None else Some (ev_text ev))"
      using t x extract_text_nonempty [of L buf ?from]
      by (cases "extract_text L buf ?from") auto
    with r s show "\<exists>raw_bytes buf start_idx.
           b64decode L raw = Some raw_bytes \<and> decompress_gzip L raw_bytes = Inr buf
           \<and> find_data_start buf = Some start_idx
           \<and> extract_text L buf
                 (if 0 < snd (extract_device_id L buf start_idx)
                  then snd (extract_device_id L buf start_idx) else start_idx)
               = (if ev_text ev = [] then None else Some (ev_text ev))"
      by blast
  qed
qed

theorem decoded_text_witness:
  "extract_text ascii_lib
     ([16, 1, 3, 20] @ blit ''spaces/X/devices/123'' @ [24, 5, 50, 4] @ blit ''test''
      @ [24, 0, 45, 0, 7, 0, 0, 0, 2, 0, 0, 0]) 24 = Some (lit ''test'')
   \<and> lit ''test'' \<noteq> []
   \<and> decode_raw_data ascii_lib
         (lit ''EAEDFHNwYWNlcy9YL2RldmljZXMvMTIzGAUyBHRlc3QYAC0ABwAAAAIAAAA='')
       = Inr \<lparr>ev_device_id = lit ''spaces/X/devices/123'', ev_message_id = Some 7,
              ev_text = lit ''test'', ev_version = 2, ev_lang_id = None\<rparr>"
proof -
  let ?buf = "[16, 1, 3, 20] @ blit ''spaces/X/devices/123'' @ [24, 5, 50, 4] @ blit ''test''
              @ [24, 0, 45, 0, 7, 0, 0, 0, 2, 0, 0, 0]"
  let ?raw = "lit ''EAEDFHNwYWNlcy9YL2RldmljZXMvMTIzGAUyBHRlc3QYAC0ABwAAAAIAAAA=''"
  let ?ev = "\<lparr>ev_device_id = lit ''spaces/X/devices/123'', ev_message_id = Some 7,
              ev_text = lit ''test'', ev_version = 2, ev_lang_id = None\<rparr>"
  have h1: "extract_text ascii_lib ?buf 24 = Some (lit ''test'')"
    by (simp add: decoder_eval)
  have h2: "decode_raw_data ascii_lib ?raw = Inr ?ev"
    by (rule sample_base64_event)
  from decoded_text [where L = ascii_lib and data = ?buf and i = 24 and t = "lit ''test''"
                       and raw = ?raw and ev = ?ev] h1 h2
  show ?thesis by simp
qed

text \<open>
  A buffer with a start marker and no text field decodes without an error, to an
  event with an empty \<open>text\<close>.
\<close>

theorem decoded_text_counterexample:
  "decode_raw_data ascii_lib (lit ''EAAAAAAAAAAAAA=='')
     = Inr \<lparr>ev_device_id = [], ev_message_id = None, ev_text = [], ev_version = 1,
            ev_lang_id = None\<rparr>"
  unfolding decode_raw_data_def empty_event_base64
  by (simp add: decompress_gzip_def empty_event)

lemma find_from_first:
  "find_from sub s i = Some j \<Longrightarrow>
     i \<le> j \<and> j + length sub \<le> length s \<and> take (length sub) (drop j s) = sub
     \<and> (\<forall>k. i \<le> k \<and> k < j \<longrightarrow> take (length sub) (drop k s) \<noteq> sub)"
proof (induction sub s i rule: find_from.induct)
  case (1 sub s i)
  show ?case
  proof (cases "take (length sub) (drop i s) = sub")
    case True
    with "1.prems" show ?thesis
      by (subst (asm) find_from.simps) (auto split: if_splits)
  next
    case False
    with "1.prems" have le: "\<not> length s < i + length sub"
      and rec: "find_from sub s (Suc i) = Some j"
      by (subst (asm) find_from.simps, simp split: if_splits)+
    from "1.IH" [OF le False rec] have ih: "Suc i \<le> j" "j + length sub \<le> length s"
      "take (length sub) (drop j s) = sub"
      "\<forall>k. Suc i \<le> k \<and> k < j \<longrightarrow> take (length sub) (drop k s) \<noteq> sub"
      by auto
    have "take (length sub) (drop k s) \<noteq> sub" if "i \<le> k" "k < j" for k
    proof (cases "k = i")
      case True
      with False show ?thesis by simp
    next
      case ne: False
      with that have "Suc i \<le> k" by simp
      with ih(4) that show ?thesis by blast
    qed
    with ih show ?thesis by auto
  qed
qed

lemma scan_24_first:
  assumes "i \<le> k" and "k < stop" and "data ! k = 24" and "k + 5 \<le> length data"
    and "\<forall>j. i \<le> j \<and> j < k \<longrightarrow> data ! j \<noteq> 24"
  shows "scan_24 data i stop = Some (le_uint32 (slice data (k + 1) (k + 5)))"
  using assms
proof (induction data i stop rule: scan_24.induct)
  case (1 data i stop)
  show ?case
  proof (cases "i = k")
    case True
    with "1.prems" show ?thesis
      by (subst scan_24.simps) simp
  next
    case False
    with "1.prems" have lt: "i < k" and ne: "data ! i \<noteq> 24" by auto
    with "1.prems" have "scan_24 data (Suc i) stop = Some (le_uint32 (slice data (k + 1) (k + 5)))"
      by (intro "1.IH") auto
    with lt ne "1.prems" show ?thesis
      by (subst scan_24.simps) simp
  qed
qed

lemma scan_24_None:
  assumes "\<forall>j. i \<le> j \<and> j < stop \<and> j + 5 \<le> length data \<longrightarrow> data ! j \<noteq> 24"
  shows "scan_24 data i stop = None"
  using assms
proof (induction data i stop rule: scan_24.induct)
  case (1 data i stop)
  show ?case
  proof (cases "i < stop")
    case False
    then show ?thesis by (subst scan_24.simps) simp
  next
    case True
    with "1.prems" have no: "\<not> (data ! i = 24 \<and> i + 5 \<le> length data)" by auto
    from "1.prems" have "scan_24 data (Suc i) stop = None"
      by (intro "1.IH" [OF True no]) auto
    with True no show ?thesis
      by (subst scan_24.simps) simp
  qed
qed

lemma try_patterns_None:
  assumes "\<forall>p \<in> set ps. \<forall>idx. find_pattern data p start_idx = Some idx
             \<longrightarrow> length data < idx + length p + 4"
  shows "try_patterns data start_idx ps = None"
  using assms by (induction ps) (auto simp: Let_def split: option.splits)

lemma try_patterns_hit:
  assumes "k < length ps" and "find_pattern data (ps ! k) start_idx = Some idx"
    and "idx + length (ps ! k) + 4 \<le> length data"
    and "\<forall>j<k. \<forall>idx'. find_pattern data (ps ! j) start_idx = Some idx'
            \<longrightarrow> length data < idx' + length (ps ! j) + 4"
  shows "try_patterns data start_idx ps =
           Some (Some (le_uint32 (slice data (idx + length (ps ! k)) (idx + length (ps ! k) + 4))),
                 if idx + length (ps ! k) + 8 \<le> length data
                 then le_uint32 (slice data (idx + length (ps ! k) + 4) (idx + length (ps ! k) + 8))
                 else 1)"
  using assms
proof (induction ps arbitrary: k)
  case Nil
  then show ?case by simp
next
  case (Cons p ps)
  show ?case
  proof (cases k)
    case 0
    with Cons.prems show ?thesis
      by (simp add: Let_def add.assoc)
  next
    case (Suc k')
    with Cons.prems have skip: "\<forall>idx'. find_pattern data p start_idx = Some idx'
                                  \<longrightarrow> length data < idx' + length p + 4"
      by fastforce
    from Suc Cons.prems have rest:
      "try_patterns data start_idx ps =
         Some (Some (le_uint32 (slice data (idx + length (ps ! k')) (idx + length (ps ! k') + 4))),
               if idx + length (ps ! k') + 8 \<le> length data
               then le_uint32 (slice data (idx + length (ps ! k') + 4) (idx + length (ps ! k') + 8))
               else 1)"
      by (intro Cons.IH) fastforce+
    from skip rest Suc show ?thesis
      by (auto simp: Let_def split: option.splits)
  qed
qed

text \<open>
  C9 (amended). \<open>_extract_message_id\<close> tries the four patterns in their order, each as
  an exact substring at or after the offset (its first occurrence). The first pattern
  that is found with at least four bytes after it gives \<open>message_id\<close>, those four bytes
  read as a little-endian integer, and \<open>version\<close>, the next four bytes when present and
  1 otherwise. When no pattern is found with four bytes after it, the first byte 24
  within 100 bytes of the offset gives \<open>message_id\<close>, the four bytes after it, with
  version 1, provided four bytes follow it; otherwise the result is \<open>(None, 1)\<close>.
\<close>

theorem message_id_extraction:
  "(k < length MESSAGE_ID_PATTERNS
      \<and> find_pattern data (MESSAGE_ID_PATTERNS ! k) start_idx = Some idx
      \<and> idx + length (MESSAGE_ID_PATTERNS ! k) + 4 \<le> length data
      \<and> (\<forall>j<k. \<forall>idx'. find_pattern data (MESSAGE_ID_PATTERNS ! j) start_idx = Some idx'
             \<longrightarrow> length data < idx' + length (MESSAGE_ID_PATTERNS ! j) + 4)
    \<longrightarrow> extract_message_id data start_idx =
          (Some (le_uint32 (slice data (idx + length (MESSAGE_ID_PATTERNS ! k))
                                      (idx + length (MESSAGE_ID_PATTERNS ! k) + 4))),
           if idx + length (MESSAGE_ID_PATTERNS ! k) + 8 \<le> length data
           then le_uint32 (slice data (idx + length (MESSAGE_ID_PATTERNS ! k) + 4)
                                      (idx + length (MESSAGE_ID_PATTERNS ! k) + 8))
           else 1))
   \<and> ((\<forall>p \<in> set MESSAGE_ID_PATTERNS. \<forall>idx'. find_pattern data p start_idx = Some idx'
           \<longrightarrow> length data < idx' + length p + 4)
        \<longrightarrow> (start_idx \<le> i \<and> i < min (start_idx + 100) (length data) \<and> data ! i = 24
               \<and> i + 5 \<le> length data \<and> (\<forall>j. start_idx \<le> j \<and> j < i \<longrightarrow> data ! j \<noteq> 24)
             \<longrightarrow> extract_message_id data start_idx
                   = (Some (le_uint32 (slice data (i + 1) (i + 5))), 1))
          \<and> ((\<forall>j. start_idx \<le> j \<and> j < min (start_idx + 100) (length data)
                    \<and> j + 5 \<le> length data \<longrightarrow> data ! j \<noteq> 24)
             \<longrightarrow> extract_message_id data start_idx = (None, 1)))
   \<and> (p \<noteq> [] \<and> find_pattern data p start_idx = Some idx \<longrightarrow>
        start_idx \<le> idx \<and> slice data idx (idx + length p) = p
        \<and> (\<forall>j. start_idx \<le> j \<and> j < idx \<longrightarrow> slice data j (j + length p) \<noteq> p))
   \<and> le_uint32 [b0, b1, b2, b3]
        = unat b0 + 256 * unat b1 + 65536 * unat b2 + 16777216 * unat b3
   \<and> MESSAGE_ID_PATTERNS =
        [[24, 0, 32, 1, 45, 0], [24, 0, 1, 32, 1, 45, 0], [24, 0, 45, 0], [24, 0, 1, 45, 0]]"
proof (intro conjI)
  show "k < length MESSAGE_ID_PATTERNS
      \<and> find_pattern data (MESSAGE_ID_PATTERNS ! k) start_idx = Some idx
      \<and> idx + length (MESSAGE_ID_PATTERNS ! k) + 4 \<le> length data
      \<and> (\<forall>j<k. \<forall>idx'. find_pattern data (MESSAGE_ID_PATTERNS ! j) start_idx = Some idx'
             \<longrightarrow> length data < idx' + length (MESSAGE_ID_PATTERNS ! j) + 4)
    \<longrightarrow> extract_message_id data start_idx =
          (Some (le_uint32 (slice data (idx + length (MESSAGE_ID_PATTERNS ! k))
                                      (idx + length (MESSAGE_ID_PATTERNS ! k) + 4))),
           if idx + length (MESSAGE_ID_PATTERNS ! k) + 8 \<le> length data
           then le_uint32 (slice data (idx + length (MESSAGE_ID_PATTERNS ! k) + 4)
                                      (idx + length (MESSAGE_ID_PATTERNS ! k) + 8))
           else 1)"
  proof (rule impI, elim conjE)
    assume "k < length MESSAGE_ID_PATTERNS"
      and "find_pattern data (MESSAGE_ID_PATTERNS ! k) start_idx = Some idx"
      and "idx + length (MESSAGE_ID_PATTERNS ! k) + 4 \<le> length data"
      and "\<forall>j<k. \<forall>idx'. find_pattern data (MESSAGE_ID_PATTERNS ! j) start_idx = Some idx'
             \<longrightarrow> length data < idx' + length (MESSAGE_ID_PATTERNS ! j) + 4"
    from try_patterns_hit [OF this] show "extract_message_id data start_idx =
          (Some (le_uint32 (slice data (idx + length (MESSAGE_ID_PATTERNS ! k))
                                      (idx + length (MESSAGE_ID_PATTERNS ! k) + 4))),
           if idx + length (MESSAGE_ID_PATTERNS ! k) + 8 \<le> length data
           then le_uint32 (slice data (idx + length (MESSAGE_ID_PATTERNS ! k) + 4)
                                      (idx + length (MESSAGE_ID_PATTERNS ! k) + 8))
           else 1)"
      by (simp add: extract_message_id_def)
  qed
next
  show "(\<forall>p \<in> set MESSAGE_ID_PATTERNS. \<forall>idx'. find_pattern data p start_idx = Some idx'
           \<longrightarrow> length data < idx' + length p + 4)
        \<longrightarrow> (start_idx \<le> i \<and> i < min (start_idx + 100) (length data) \<and> data ! i = 24
               \<and> i + 5 \<le> length data \<and> (\<forall>j. start_idx \<le> j \<and> j < i \<longrightarrow> data ! j \<noteq> 24)
             \<longrightarrow> extract_message_id data start_idx
                   = (Some (le_uint32 (slice data (i + 1) (i + 5))), 1))
          \<and> ((\<forall>j. start_idx \<le> j \<and> j < min (start_idx + 100) (length data)
                    \<and> j + 5 \<le> length data \<longrightarrow> data ! j \<noteq> 24)
             \<longrightarrow> extract_message_id data start_idx = (None, 1))"
  proof (intro impI conjI)
    assume "\<forall>p \<in> set MESSAGE_ID_PATTERNS. \<forall>idx'. find_pattern data p start_idx = Some idx'
              \<longrightarrow> length data < idx' + length p + 4"
    then have none: "try_patterns data start_idx MESSAGE_ID_PATTERNS = None"
      by (rule try_patterns_None)
    {
      assume "start_idx \<le> i \<and> i < min (start_idx + 100) (length data) \<and> data ! i = 24
               \<and> i + 5 \<le> length data \<and> (\<forall>j. start_idx \<le> j \<and> j < i \<longrightarrow> data ! j \<noteq> 24)"
      then have "scan_24 data start_idx (min (start_idx + 100) (length data))
                   = Some (le_uint32 (slice data (i + 1) (i + 5)))"
        by (intro scan_24_first) auto
      with none show "extract_message_id data start_idx
                        = (Some (le_uint32 (slice data (i + 1) (i + 5))), 1)"
        by (simp add: extract_message_id_def)
    }
    {
      assume "\<forall>j. start_idx \<le> j \<and> j < min (start_idx + 100) (length data)
                    \<and> j + 5 \<le> length data \<longrightarrow> data ! j \<noteq> 24"
      then have "scan_24 data start_idx (min (start_idx + 100) (length data)) = None"
        by (rule scan_24_None)
      with none show "extract_message_id data start_idx = (None, 1)"
        by (simp add: extract_message_id_def)
    }
  qed
next
  show "p \<noteq> [] \<and> find_pattern data p start_idx = Some idx \<longrightarrow>
        start_idx \<le> idx \<and> slice data idx (idx + length p) = p
        \<and> (\<forall>j. start_idx \<le> j \<and> j < idx \<longrightarrow> slice data j (j + length p) \<noteq> p)"
    using find_from_first [of p data start_idx idx]
    by (simp add: find_pattern_def slice_def)
next
  show "le_uint32 [b0, b1, b2, b3]
        = unat b0 + 256 * unat b1 + 65536 * unat b2 + 16777216 * unat b3"
    by (simp add: le_uint32_def)
next
  show "MESSAGE_ID_PATTERNS =
        [[24, 0, 32, 1, 45, 0], [24, 0, 1, 32, 1, 45, 0], [24, 0, 45, 0], [24, 0, 1, 45, 0]]"
    by (rule MESSAGE_ID_PATTERNS_def)
qed

theorem message_id_extraction_witness:
  "extract_message_id [0, 24, 0, 45, 0, 7, 0, 0, 0, 2, 0, 0, 0] 1 = (Some 7, 2)
   \<and> extract_message_id [0, 24, 9, 0, 0, 0] 1 = (Some 9, 1)
   \<and> extract_message_id [0, 24, 9, 0, 0] 1 = (None, 1)"
proof -
  let ?a = "[0, 24, 0, 45, 0, 7, 0, 0, 0, 2, 0, 0, 0] :: bytes"
  let ?b = "[0, 24, 9, 0, 0, 0] :: bytes"
  let ?c = "[0, 24, 9, 0, 0] :: bytes"
  have a0: "\<forall>idx'. find_pattern ?a (MESSAGE_ID_PATTERNS ! j) 1 = Some idx'
             \<longrightarrow> length ?a < idx' + length (MESSAGE_ID_PATTERNS ! j) + 4" if "j < 2" for j
  proof -
    from that consider "j = 0" | "j = 1" by linarith
    then show ?thesis
      by cases (simp_all add: MESSAGE_ID_PATTERNS_def find_pattern_def find_from.simps)
  qed
  have a1: "(2::nat) < length MESSAGE_ID_PATTERNS
      \<and> find_pattern ?a (MESSAGE_ID_PATTERNS ! 2) 1 = Some 1
      \<and> 1 + length (MESSAGE_ID_PATTERNS ! 2) + 4 \<le> length ?a
      \<and> (\<forall>j<2. \<forall>idx'. find_pattern ?a (MESSAGE_ID_PATTERNS ! j) 1 = Some idx'
             \<longrightarrow> length ?a < idx' + length (MESSAGE_ID_PATTERNS ! j) + 4)"
    using a0 by (simp add: MESSAGE_ID_PATTERNS_def find_pattern_def find_from.simps)
  have a2: "(Some (le_uint32 (slice ?a (1 + length (MESSAGE_ID_PATTERNS ! 2))
                                      (1 + length (MESSAGE_ID_PATTERNS ! 2) + 4))),
             if 1 + length (MESSAGE_ID_PATTERNS ! 2) + 8 \<le> length ?a
             then le_uint32 (slice ?a (1 + length (MESSAGE_ID_PATTERNS ! 2) + 4)
                                      (1 + length (MESSAGE_ID_PATTERNS ! 2) + 8))
             else 1) = (Some 7, 2)"
    by (simp add: MESSAGE_ID_PATTERNS_def le_uint32_def slice_def)
  have b1: "\<forall>p \<in> set MESSAGE_ID_PATTERNS. \<forall>idx'. find_pattern ?b p 1 = Some idx'
              \<longrightarrow> length ?b < idx' + length p + 4"
    by (simp add: MESSAGE_ID_PATTERNS_def find_pattern_def find_from.simps)
  have b2: "(1::nat) \<le> 1 \<and> 1 < min (1 + 100) (length ?b) \<and> ?b ! 1 = 24
               \<and> 1 + 5 \<le> length ?b \<and> (\<forall>j. 1 \<le> j \<and> j < 1 \<longrightarrow> ?b ! j \<noteq> 24)"
    by simp
  have b3: "le_uint32 (slice ?b (1 + 1) (1 + 5)) = 9"
    by (simp add: le_uint32_def slice_def)
  have c1: "\<forall>p \<in> set MESSAGE_ID_PATTERNS. \<forall>idx'. find_pattern ?c p 1 = Some idx'
              \<longrightarrow> length ?c < idx' + length p + 4"
    by (simp add: MESSAGE_ID_PATTERNS_def find_pattern_def find_from.simps)
  have c2: "\<forall>j. 1 \<le> j \<and> j < min (1 + 100) (length ?c) \<and> j + 5 \<le> length ?c \<longrightarrow> ?c ! j \<noteq> 24"
    by simp
  from message_id_extraction [where data = ?a and k = 2 and start_idx = 1 and idx = 1] a1
  have "extract_message_id ?a 1 =
          (Some (le_uint32 (slice ?a (1 + length (MESSAGE_ID_PATTERNS ! 2))
                                      (1 + length (MESSAGE_ID_PATTERNS ! 2) + 4))),
             if 1 + length (MESSAGE_ID_PATTERNS ! 2) + 8 \<le> length ?a
             then le_uint32 (slice ?a (1 + length (MESSAGE_ID_PATTERNS ! 2) + 4)
                                      (1 + length (MESSAGE_ID_PATTERNS ! 2) + 8))
             else 1)"
    by blast
  then have a: "extract_message_id ?a 1 = (Some 7, 2)"
    by (simp only: a2)
  from message_id_extraction [where data = ?b and start_idx = 1 and i = 1] b1 b2
  have "extract_message_id ?b 1 = (Some (le_uint32 (slice ?b (1 + 1) (1 + 5))), 1)"
    by blast
  then have b: "extract_message_id ?b 1 = (Some 9, 1)"
    by (simp only: b3)
  from message_id_extraction [where data = ?c and start_idx = 1] c1 c2
  have c: "extract_message_id ?c 1 = (None, 1)"
    by blast
  from a b c show ?thesis by simp
qed

text \<open>
  The pattern \<open>[24, 0, 45, 0]\<close> occurs at the offset with one byte after it: the
  source goes on to the scan for a byte 24 and reads the id from the bytes of the
  pattern itself.
\<close>

theorem message_id_extraction_counterexample:
  "find_pattern [24, 0, 45, 0, 7] (MESSAGE_ID_PATTERNS ! 2) 0 = Some 0
   \<and> extract_message_id [24, 0, 45, 0, 7] 0 = (Some 117452032, 1)
   \<and> le_uint32 (slice [24, 0, 45, 0, 7] 1 5) = 117452032"
  by (simp add: find_pattern_def find_from.simps extract_message_id_def MESSAGE_ID_PATTERNS_def
        scan_24.simps le_uint32_def slice_def)

text \<open>
  C5. \<open>decode_raw_data\<close> is documented to raise \<open>ValueError\<close> only. On the base64 text
  \<open>AAAAHw==\<close>, the four bytes \<open>00 00 00 1f\<close>, the read of \<open>data[4]\<close> in
  \<open>_decompress_gzip\<close> raises \<open>IndexError\<close>, and \<open>decode_raw_data\<close> raises it again.
\<close>

theorem decode_raw_data_index_error:
  "decode_raw_data ascii_lib (lit ''AAAAHw=='') = Inl IndexError"
proof -
  have "b64decode ascii_lib (lit ''AAAAHw=='') = Some [0, 0, 0, 31]"
    by (simp add: ascii_lib_def lit_def b64_value_def b64_group_def)
  then show ?thesis
    by (simp add: decode_raw_data_def decompress_gzip_def)
qed

lemma is_valid_spaces_long:
  assumes "20 < length s" and "length s < 10 * count_list s 32"
  shows "is_valid_device_id L s = False"
proof -
  from assms have "length s div 10 < count_list s 32" by arith
  with assms show ?thesis
    by (simp add: is_valid_device_id_def Let_def)
qed

lemma is_valid_example: "is_valid_device_id L (lit ''spaces/X/devices/123'') = True"
  by (simp add: is_valid_device_id_def Let_def lit_def isprintable_def isalnum_def
        path_chars_def id_chars_def split_ws_def isspace_def)

text \<open>
  C8. A string longer than 20 characters in which more than a tenth of the characters
  are spaces is not a valid device id, whatever the library's character tables say;
  \<open>spaces/X/devices/123\<close> is one.
\<close>

theorem valid_device_id_heuristic:
  "(20 < length s \<and> length s < 10 * count_list s 32 \<longrightarrow> is_valid_device_id L s = False)
   \<and> is_valid_device_id L (lit ''spaces/X/devices/123'') = True"
  using is_valid_spaces_long [of s L] is_valid_example [of L] by blast

theorem valid_device_id_heuristic_witness:
  "20 < length (lit ''this is a line of text here'')
   \<and> length (lit ''this is a line of text here'')
        < 10 * count_list (lit ''this is a line of text here'') 32
   \<and> is_valid_device_id ascii_lib (lit ''this is a line of text here'') = False"
proof -
  have h: "20 < length (lit ''this is a line of text here'')
           \<and> length (lit ''this is a line of text here'')
                < 10 * count_list (lit ''this is a line of text here'') 32"
    by (simp add: lit_def)
  from valid_device_id_heuristic [of "lit ''this is a line of text here''" ascii_lib] h
  show ?thesis by blast
qed

end
